theory Spec2Isabelle
  imports Main
begin

section \<open>The libdragon toolchain wrapper (index.js)\<close>

text \<open>
  The script is glue around an external command interpreter: every operation builds
  command lines, hands them to \<open>runCommand\<close> and looks at the text that comes back.
  The embedding keeps that shape. The command interpreter is a parameter \<open>sh\<close> of
  every operation; promises are results of type \<open>error + 'a\<close>; awaiting is
  sequencing, and the commands that were handed to the interpreter are recorded, in
  order, in the state.
\<close>

subsection \<open>Constants\<close>

definition BASE_VERSION :: string where
  "BASE_VERSION = ''toolchain''"

definition DOCKER_HUB_NAME :: string where
  "DOCKER_HUB_NAME = ''anacierdem/libdragon''"

definition UPDATE_LATEST :: bool where
  "UPDATE_LATEST = True"

subsection \<open>Strings and arrays\<close>

definition newline :: char where
  "newline = CHR 0x0A"

definition backslash :: char where
  "backslash = CHR 0x5C"

text \<open>\<open>s.indexOf(t) === 0\<close> holds when \<open>strip_prefix t s\<close> is not \<open>None\<close>.\<close>

fun strip_prefix :: "string \<Rightarrow> string \<Rightarrow> string option" where
  "strip_prefix [] s = Some s"
| "strip_prefix (c # t) [] = None"
| "strip_prefix (c # t) (d # s) = (if c = d then strip_prefix t s else None)"

text \<open>\<open>s.split(c)\<close> for a separator of one character (any character that satisfies \<open>P\<close>).\<close>

fun split_where :: "(char \<Rightarrow> bool) \<Rightarrow> string \<Rightarrow> string list" where
  "split_where P [] = [[]]"
| "split_where P (c # cs) =
     (if P c then [] # split_where P cs
      else (case split_where P cs of [] \<Rightarrow> [[c]] | x # xs \<Rightarrow> (c # x) # xs))"

text \<open>
  \<open>s.split(t)\<close> for a separator string: the pieces between the occurrences of \<open>t\<close>,
  found from the left. The counter is the number of characters of a separator just
  found that are still to be skipped.
\<close>

fun split_skip :: "string \<Rightarrow> nat \<Rightarrow> string \<Rightarrow> string list" where
  "split_skip t k [] = [[]]"
| "split_skip t (Suc k) (c # cs) = split_skip t k cs"
| "split_skip t 0 (c # cs) =
     (if t \<noteq> [] \<and> strip_prefix t (c # cs) \<noteq> None then [] # split_skip t (length t - 1) cs
      else (case split_skip t 0 cs of [] \<Rightarrow> [[c]] | x # xs \<Rightarrow> (c # x) # xs))"

definition split_str :: "string \<Rightarrow> string \<Rightarrow> string list" where
  "split_str t s = split_skip t 0 s"

text \<open>\<open>xs.join(t)\<close>.\<close>

fun join_with :: "string \<Rightarrow> string list \<Rightarrow> string" where
  "join_with t [] = []"
| "join_with t [x] = x"
| "join_with t (x # y # ys) = x @ t @ join_with t (y # ys)"

text \<open>
  \<open>s.replace(re, r)\<close> where \<open>re\<close> is the regular expression made of an escaping
  backslash and the separator character \<open>c\<close>, so that it matches \<open>c\<close>: the
  expression has no \<open>g\<close> flag, so the first occurrence of \<open>c\<close> is replaced and the rest
  of the string is kept.
\<close>

fun replace_first :: "char \<Rightarrow> string \<Rightarrow> string \<Rightarrow> string" where
  "replace_first c r [] = []"
| "replace_first c r (x # xs) = (if x = c then r @ xs else x # replace_first c r xs)"

text \<open>lodash's \<open>uniq\<close>: the first occurrence of every element, in order.\<close>

fun uniq_from :: "'a list \<Rightarrow> 'a list \<Rightarrow> 'a list" where
  "uniq_from seen [] = []"
| "uniq_from seen (x # xs) =
     (if x \<in> set seen then uniq_from seen xs else x # uniq_from (x # seen) xs)"

definition uniq :: "'a list \<Rightarrow> 'a list" where
  "uniq xs = uniq_from [] xs"

subsection \<open>The path module\<close>

text \<open>
  The host's \<open>path\<close> module, as far as the script uses it: the separator, \<open>join\<close>
  and \<open>relative\<close> (which resolves relative arguments against the working directory,
  its first argument here).
\<close>

record path_module =
  sep :: char
  join :: "string list \<Rightarrow> string"
  relative :: "string \<Rightarrow> string \<Rightarrow> string \<Rightarrow> string"

text \<open>
  Node's \<open>normalizeString\<close> on the segments of a path: empty segments and \<open>.\<close> are
  dropped, \<open>..\<close> removes the segment before it, and is kept only where the path may
  climb above its start. \<open>res\<close> holds the segments kept so far, last one first.
\<close>

fun normalizeString :: "bool \<Rightarrow> string list \<Rightarrow> string list \<Rightarrow> string list" where
  "normalizeString allowAboveRoot res [] = rev res"
| "normalizeString allowAboveRoot res (seg # segs) =
     (if seg = [] \<or> seg = ''.'' then normalizeString allowAboveRoot res segs
      else if seg = ''..'' then
        (case res of
           [] \<Rightarrow> normalizeString allowAboveRoot (if allowAboveRoot then [''..''] else []) segs
         | l # res' \<Rightarrow>
             if l = ''..''
             then normalizeString allowAboveRoot (if allowAboveRoot then ''..'' # res else res) segs
             else normalizeString allowAboveRoot res' segs)
      else normalizeString allowAboveRoot (seg # res) segs)"

definition is_slash :: "char \<Rightarrow> bool" where
  "is_slash c = (c = CHR ''/'')"

definition posix_normalize :: "string \<Rightarrow> string" where
  "posix_normalize path0 =
     (if path0 = [] then ''.''
      else
        let isAbsolute = is_slash (hd path0);
            trailingSeparator = is_slash (last path0);
            path1 = join_with ''/'' (normalizeString (\<not> isAbsolute) [] (split_where is_slash path0))
        in if path1 = [] then (if isAbsolute then ''/'' else if trailingSeparator then ''./'' else ''.'')
           else (if isAbsolute then ''/'' else []) @ path1 @ (if trailingSeparator then ''/'' else []))"

definition posix_join :: "string list \<Rightarrow> string" where
  "posix_join args =
     (let joined = filter (\<lambda>arg. arg \<noteq> []) args
      in if joined = [] then ''.'' else posix_normalize (join_with ''/'' joined))"

text \<open>\<open>path.posix.resolve\<close> of one path against the working directory, as segments.\<close>

definition posix_resolve :: "string \<Rightarrow> string \<Rightarrow> string list" where
  "posix_resolve cwd0 path0 =
     normalizeString False []
       (split_where is_slash
          (if path0 \<noteq> [] \<and> is_slash (hd path0) then path0 else cwd0 @ ''/'' @ path0))"

text \<open>The segments left after the longest common run of leading segments.\<close>

fun drop_common :: "('a \<Rightarrow> 'a \<Rightarrow> bool) \<Rightarrow> 'a list \<Rightarrow> 'a list \<Rightarrow> 'a list \<times> 'a list" where
  "drop_common eq (x # xs) (y # ys) =
     (if eq x y then drop_common eq xs ys else (x # xs, y # ys))"
| "drop_common eq xs ys = (xs, ys)"

definition posix_relative :: "string \<Rightarrow> string \<Rightarrow> string \<Rightarrow> string" where
  "posix_relative cwd0 from to =
     (if from = to then []
      else
        let f = posix_resolve cwd0 from; t = posix_resolve cwd0 to
        in if f = t then []
           else (case drop_common (=) f t of
                   (f', t') \<Rightarrow> join_with ''/'' (replicate (length f') ''..'' @ t')))"

definition posix :: path_module where
  "posix = \<lparr> sep = CHR ''/'', join = posix_join, relative = posix_relative \<rparr>"

text \<open>
  The Windows flavour, for the paths the script meets there: paths that start with a
  drive letter, a colon and a separator, or with a separator, and relative ones. Both slashes separate,
  \<open>relative\<close> compares without regard to the case of ASCII letters and answers with
  the spelling of its second argument. UNC paths and drive-relative paths (a drive
  letter and a colon with no separator after them) are outside this model.
\<close>

definition is_win_sep :: "char \<Rightarrow> bool" where
  "is_win_sep c = (c = CHR ''/'' \<or> c = backslash)"

definition drive_qualified :: "string \<Rightarrow> bool" where
  "drive_qualified path0 = (3 \<le> length path0 \<and> path0 ! 1 = CHR '':'' \<and> is_win_sep (path0 ! 2))"

definition toLowerCase :: "char \<Rightarrow> char" where
  "toLowerCase c =
     (case map_of (zip ''ABCDEFGHIJKLMNOPQRSTUVWXYZ'' ''abcdefghijklmnopqrstuvwxyz'') c of
        Some l \<Rightarrow> l
      | None \<Rightarrow> c)"

definition win32_normalize :: "string \<Rightarrow> string" where
  "win32_normalize path0 =
     (if path0 = [] then ''.''
      else
        let segs = split_where is_win_sep path0;
            trailingSeparator = is_win_sep (last path0)
        in if drive_qualified path0
           then
             (let tail = join_with [backslash] (normalizeString False [] (tl segs))
              in take 2 path0 @ [backslash] @ tail @
                 (if trailingSeparator \<and> tail \<noteq> [] then [backslash] else []))
           else
             (let isAbsolute = is_win_sep (hd path0);
                  tail = join_with [backslash] (normalizeString (\<not> isAbsolute) [] segs)
              in if tail = []
                 then (if isAbsolute then [backslash]
                       else if trailingSeparator then [CHR ''.'', backslash] else ''.'')
                 else (if isAbsolute then [backslash] else []) @ tail @
                      (if trailingSeparator then [backslash] else [])))"

definition win32_join :: "string list \<Rightarrow> string" where
  "win32_join args =
     (let joined = filter (\<lambda>arg. arg \<noteq> []) args
      in if joined = [] then ''.'' else win32_normalize (join_with [backslash] joined))"

text \<open>
  \<open>path.win32.resolve\<close> of one path against the working directory (which has a drive),
  as segments: a path with a drive stands for itself, a path that starts with a
  separator keeps the drive of the working directory, any other path is below the
  working directory.
\<close>

definition win32_resolve :: "string \<Rightarrow> string \<Rightarrow> string list" where
  "win32_resolve cwd0 path0 =
     normalizeString False []
       (split_where is_win_sep
          (if drive_qualified path0 then path0
           else if path0 \<noteq> [] \<and> is_win_sep (hd path0) then take 2 cwd0 @ path0
           else cwd0 @ [backslash] @ path0))"

definition win32_relative :: "string \<Rightarrow> string \<Rightarrow> string \<Rightarrow> string" where
  "win32_relative cwd0 from to =
     (if from = to then []
      else
        let f = win32_resolve cwd0 from; t = win32_resolve cwd0 to
        in if map (map toLowerCase) f = map (map toLowerCase) t then []
           else (case drop_common (\<lambda>a b. map toLowerCase a = map toLowerCase b) f t of
                   (f', t') \<Rightarrow>
                     if length f' = length f then join_with [backslash] t
                     else join_with [backslash] (replicate (length f') ''..'' @ t')))"

definition win32 :: path_module where
  "win32 = \<lparr> sep = backslash, join = win32_join, relative = win32_relative \<rparr>"

subsection \<open>The process and its options\<close>

text \<open>The two key lists of the project's package.json that \<open>install\<close> reads.\<close>

record package =
  dependencies :: "string list"
  devDependencies :: "string list"

text \<open>
  What the script reads from its process: the environment, the working directory, its
  own version (from its package.json), the \<open>path\<close> module of the host, the project's
  package.json (if there is one) and whether a file can be accessed.
\<close>

record process =
  env :: "string \<Rightarrow> string option"
  cwd :: string
  version :: string
  path :: path_module
  package_json :: "package option"
  access :: "string \<Rightarrow> bool"

record options =
  PROJECT_NAME :: string
  BYTE_SWAP :: bool
  MOUNT_PATH :: string
  IS_CI :: bool
  SELF_BUILD :: bool

text \<open>\<open>a || b\<close> on an environment variable: an unset variable and the empty string are falsy.\<close>

definition or_default :: "string option \<Rightarrow> string \<Rightarrow> string" where
  "or_default v d = (case v of None \<Rightarrow> d | Some s \<Rightarrow> if s = [] then d else s)"

definition in_docker :: "process \<Rightarrow> bool" where
  "in_docker p = (env p ''IS_DOCKER'' = Some ''true'')"

text \<open>Lines 14 to 24: the default options, then the derived \<open>SELF_BUILD\<close>.\<close>

definition default_options :: "process \<Rightarrow> options" where
  "default_options p =
     (let o1 = \<lparr> PROJECT_NAME = or_default (env p ''npm_package_name'') ''libdragon'',
                 BYTE_SWAP = False,
                 MOUNT_PATH = cwd p,
                 IS_CI = (env p ''CI'' = Some ''true''),
                 SELF_BUILD = False \<rparr>
      in o1 \<lparr> SELF_BUILD := (if PROJECT_NAME o1 = ''libdragon'' then IS_CI o1 else False) \<rparr>)"

subsection \<open>Promises and the process runner\<close>

text \<open>
  A rejected promise carries the error of the failed command (its exit status), a plain
  message (the installer rejects with a string) or a thrown error (a \<open>TypeError\<close>, or
  that of a \<open>require\<close> that finds no file).
\<close>

datatype error = ExecutionError nat | Message string | TypeError | ModuleNotFound

text \<open>
  The state an operation runs in: the world outside the script (whatever the command
  interpreter acts on) and the command lines handed to \<open>exec\<close> so far.
\<close>

record 'w state =
  world :: 'w
  issued :: "string list"

text \<open>A dependency of the project and the places npm has it installed.\<close>

record dependency =
  name :: string
  paths :: "string list"

text \<open>The verbs of the command line.\<close>

datatype action = Start | Download | Init | Install | Make | Stop | BuildDragon | Update

text \<open>How the loop over the arguments ended early: \<open>process.exit\<close>, or an uncaught throw.\<close>

datatype ending = Exit nat | Uncaught error

text \<open>
  What the loop over the arguments builds up: the options, the actions called so far
  with their parameter, the lines printed, and whether the process has ended.
\<close>

record dispatch =
  opts_now :: options
  invoked :: "(action \<times> string) list"
  printed :: "string list"
  ended :: "ending option"

text \<open>A container in the engine's store: its id, its name and whether it is running.\<close>

record container =
  cid :: string
  cname :: string
  running :: bool

type_synonym store = "container list"

text \<open>
  What the script does not decide about the engine: the results of the programs on the
  host and in the container, which names the text after \<open>name=\<close> in a listing selects,
  whether the engine can carry out a \<open>docker run\<close> command line (the image is there or
  can be pulled, the bind source exists), and whether it refuses a name that is taken.
\<close>

record engine =
  host :: "string \<Rightarrow> nat + string"
  guest :: "string \<Rightarrow> nat + string"
  name_filter :: "string \<Rightarrow> string \<Rightarrow> bool"
  creates :: "string \<Rightarrow> bool"
  refuses_taken :: bool

type_synonym 'w runner = "string \<Rightarrow> 'w \<Rightarrow> (nat + string) \<times> 'w"

type_synonym ('w, 'a) promise = "'w state \<Rightarrow> (error + 'a) \<times> 'w state"

definition resolve :: "'a \<Rightarrow> ('w, 'a) promise" where
  "resolve a s = (Inr a, s)"

definition reject :: "error \<Rightarrow> ('w, 'a) promise" where
  "reject e s = (Inl e, s)"

text \<open>\<open>await m\<close> followed by the rest of the function body; a rejection ends the body.\<close>

definition await :: "('w, 'a) promise \<Rightarrow> ('a \<Rightarrow> ('w, 'b) promise) \<Rightarrow> ('w, 'b) promise" where
  "await m f s = (case m s of (Inl e, s') \<Rightarrow> (Inl e, s') | (Inr a, s') \<Rightarrow> f a s')"

text \<open>
  \<open>runCommand\<close> (lines 26 to 44): the command line goes to the interpreter; the promise
  resolves with the captured standard output when the command exits with status 0 and
  rejects with the error otherwise.
\<close>

definition runCommand :: "'w runner \<Rightarrow> string \<Rightarrow> ('w, string) promise" where
  "runCommand sh cmd s =
     (case sh cmd (world s) of
        (Inr stdout, w') \<Rightarrow> (Inr stdout, \<lparr> world = w', issued = issued s @ [cmd] \<rparr>)
      | (Inl code, w') \<Rightarrow> (Inl (ExecutionError code), \<lparr> world = w', issued = issued s @ [cmd] \<rparr>))"

text \<open>A string in a condition is truthy exactly when it is not empty.\<close>

definition truthy :: "string \<Rightarrow> bool" where
  "truthy s = (s \<noteq> [])"

subsection \<open>The lifecycle operations\<close>

definition ls_command :: "options \<Rightarrow> string" where
  "ls_command opts = ''docker container ls -qa -f name=^/'' @ PROJECT_NAME opts @ ''$''"

definition rm_id_command :: "string \<Rightarrow> string" where
  "rm_id_command containerID = ''docker container rm -f '' @ containerID"

definition run_command :: "process \<Rightarrow> options \<Rightarrow> bool \<Rightarrow> string" where
  \<open>run_command p opts forceLatest =
     ''docker run --name='' @ PROJECT_NAME opts @
     (if BYTE_SWAP opts then '' -e N64_BYTE_SWAP=true'' else '''') @
     '' -e IS_DOCKER=true'' @
     '' -d --mount type=bind,source="'' @ MOUNT_PATH opts @
     ''",target=/'' @ PROJECT_NAME opts @
     '' -w="/'' @ PROJECT_NAME opts @ ''" '' @
     DOCKER_HUB_NAME @ '':'' @
     (if \<not> forceLatest \<and> SELF_BUILD opts then BASE_VERSION else version p) @
     '' tail -f /dev/null''\<close>

text \<open>\<open>startToolchain\<close>, lines 46 to 77.\<close>

definition startToolchain :: "process \<Rightarrow> options \<Rightarrow> 'w runner \<Rightarrow> bool \<Rightarrow> ('w, unit) promise" where
  "startToolchain p opts sh forceLatest =
     (if in_docker p then resolve ()
      else
        await (runCommand sh (ls_command opts)) (\<lambda>containerID.
        await (if truthy containerID
               then await (runCommand sh (rm_id_command containerID)) (\<lambda>_. resolve ())
               else resolve ()) (\<lambda>_.
        await (runCommand sh (run_command p opts forceLatest)) (\<lambda>_.
        resolve ()))))"

definition start_command :: "options \<Rightarrow> string" where
  "start_command opts = ''docker start '' @ PROJECT_NAME opts"

definition exec_make_command :: "options \<Rightarrow> string \<Rightarrow> string" where
  "exec_make_command opts param = ''docker exec '' @ PROJECT_NAME opts @ '' make '' @ param"

text \<open>\<open>make\<close>, lines 79 to 87.\<close>

definition make :: "process \<Rightarrow> options \<Rightarrow> 'w runner \<Rightarrow> string \<Rightarrow> ('w, unit) promise" where
  "make p opts sh param =
     (if in_docker p
      then await (runCommand sh (''make '' @ param)) (\<lambda>_. resolve ())
      else
        await (runCommand sh (start_command opts)) (\<lambda>_.
        await (runCommand sh (exec_make_command opts param)) (\<lambda>_.
        resolve ())))"

text \<open>\<open>download\<close>, lines 89 to 100.\<close>

definition download :: "process \<Rightarrow> options \<Rightarrow> 'w runner \<Rightarrow> ('w, unit) promise" where
  "download p opts sh =
     (if in_docker p then resolve ()
      else
        await (runCommand sh (''docker pull '' @ DOCKER_HUB_NAME @ '':'' @ BASE_VERSION)) (\<lambda>_.
        if \<not> SELF_BUILD opts
        then await (runCommand sh (''docker pull '' @ DOCKER_HUB_NAME @ '':'' @ version p))
               (\<lambda>_. resolve ())
        else resolve ()))"

definition ps_command :: "options \<Rightarrow> string" where
  "ps_command opts = ''docker ps -a -q -f name=^/'' @ PROJECT_NAME opts @ ''$''"

definition rm_name_command :: "options \<Rightarrow> string" where
  "rm_name_command opts = ''docker rm -f '' @ PROJECT_NAME opts"

text \<open>\<open>stop\<close>, lines 102 to 113.\<close>

definition stop :: "process \<Rightarrow> options \<Rightarrow> 'w runner \<Rightarrow> ('w, unit) promise" where
  "stop p opts sh =
     (if in_docker p then resolve ()
      else
        await (runCommand sh (ps_command opts)) (\<lambda>list.
        if truthy list
        then await (runCommand sh (rm_name_command opts)) (\<lambda>_. resolve ())
        else resolve ()))"



text \<open>\<open>update\<close>, lines 242 to 263.\<close>

definition update :: "process \<Rightarrow> options \<Rightarrow> 'w runner \<Rightarrow> ('w, unit) promise" where
  "update p opts sh =
     (if in_docker p then resolve ()
      else
        await (stop p opts sh) (\<lambda>_.
        await (runCommand sh (''docker push '' @ DOCKER_HUB_NAME @ '':'' @ version p)) (\<lambda>_.
        if UPDATE_LATEST
        then
          await (runCommand sh (''docker tag '' @ DOCKER_HUB_NAME @ '':'' @ version p @ '' '' @
                                DOCKER_HUB_NAME @ '':latest'')) (\<lambda>_.
          await (runCommand sh (''docker push '' @ DOCKER_HUB_NAME @ '':latest'')) (\<lambda>_.
          resolve ()))
        else resolve ())))"

subsection \<open>The dependency installer\<close>

definition ambiguous :: string where
  "ambiguous = ''Using same dependency with different versions is not supported!''"

text \<open>
  \<open>Promise.all\<close> over promises whose commands are already under way: every one of them
  runs, here one after the other in the order of the array, and the result is the first
  rejection in that order, or the array of the values.
\<close>

fun promise_all :: "('w, 'a) promise list \<Rightarrow> ('w, 'a list) promise" where
  "promise_all [] s = (Inr [], s)"
| "promise_all (m # ms) s =
     (case m s of
        (r, s') \<Rightarrow>
          (case promise_all ms s' of
             (rs, s'') \<Rightarrow>
               ((case r of
                   Inl e \<Rightarrow> Inl e
                 | Inr a \<Rightarrow> (case rs of Inl e \<Rightarrow> Inl e | Inr as \<Rightarrow> Inr (a # as))), s'')))"

text \<open>
  The keys of an object come in this order: first the keys that are array indices
  (decimal numerals without a leading zero, below \<open>2^32 - 1\<close>), by their value, then the
  other keys in the order in which they were inserted.
\<close>

definition digits :: string where
  "digits = ''0123456789''"

definition digit_value :: "char \<Rightarrow> nat" where
  "digit_value c = length (takeWhile (\<lambda>d. d \<noteq> c) digits)"

definition index_value :: "string \<Rightarrow> nat" where
  "index_value k = fold (\<lambda>c n. 10 * n + digit_value c) k 0"

definition array_index :: "string \<Rightarrow> bool" where
  "array_index k =
     (k \<noteq> [] \<and> (\<forall>c \<in> set k. c \<in> set digits) \<and> (k = ''0'' \<or> hd k \<noteq> CHR ''0'')
      \<and> index_value k < 2 ^ 32 - 1)"

definition own_keys :: "string list \<Rightarrow> string list" where
  "own_keys ks =
     sort_key index_value (filter array_index ks) @ filter (\<lambda>k. \<not> array_index k) ks"

text \<open>
  Lines 162 to 166: the keys of the object into which both dependency objects are
  spread (each key once, inserted in the order of the two listings), without the
  toolchain itself.
\<close>

definition dependency_names :: "package \<Rightarrow> string list" where
  "dependency_names pkg =
     filter (\<lambda>dep. dep \<noteq> ''libdragon'')
       (own_keys (uniq (dependencies pkg @ devDependencies pkg)))"

text \<open>Lines 167 to 175: where npm has one dependency installed.\<close>

definition resolve_dependency :: "'w runner \<Rightarrow> string \<Rightarrow> ('w, dependency) promise" where
  "resolve_dependency sh dep =
     await (runCommand sh (''npm ls '' @ dep @ '' --parseable=true'')) (\<lambda>npmPath.
     resolve \<lparr> name = dep,
               paths = uniq (filter truthy (split_where (\<lambda>c. c = newline) npmPath)) \<rparr>)"

text \<open>Lines 194 to 203: the path of a dependency as the container sees it.\<close>

definition relativePath :: "process \<Rightarrow> options \<Rightarrow> string \<Rightarrow> string" where
  "relativePath p opts path0 =
     replace_first (sep (path p)) [sep posix]
       (relative (path p) (cwd p) (MOUNT_PATH opts) path0)"

definition containerPath :: "process \<Rightarrow> options \<Rightarrow> string \<Rightarrow> string" where
  "containerPath p opts path0 =
     posix_join [''/'', PROJECT_NAME opts, relativePath p opts path0, ''/'']"

definition makePath :: "process \<Rightarrow> options \<Rightarrow> string \<Rightarrow> string" where
  "makePath p opts path0 = posix_join [containerPath p opts path0, ''Makefile'']"

definition make_install :: "process \<Rightarrow> options \<Rightarrow> string \<Rightarrow> string" where
  "make_install p opts path0 =
     ''[ -f '' @ makePath p opts path0 @
     '' ] &&  make -C '' @ containerPath p opts path0 @
     '' && make -C '' @ containerPath p opts path0 @ '' install''"

text \<open>
  Lines 185 to 234, the promise made with \<open>new Promise\<close> for one dependency.
  \<open>paths[0]\<close> of an empty array is \<open>undefined\<close>, and \<open>path.join\<close> throws a
  \<open>TypeError\<close> on it; the throw happens in the executor of the promise, which is
  then rejected.
\<close>

definition install_dependency :: "process \<Rightarrow> options \<Rightarrow> 'w runner \<Rightarrow> dependency \<Rightarrow> ('w, unit) promise" where
  \<open>install_dependency p opts sh d =
     (case paths d of
        [] \<Rightarrow> reject TypeError
      | path0 # _ \<Rightarrow>
          if \<not> access p (join (path p) [path0, ''Makefile'']) then resolve ()
          else if in_docker p
          then await (runCommand sh (make_install p opts path0)) (\<lambda>_. resolve ())
          else await (runCommand sh
                        (''docker exec '' @ PROJECT_NAME opts @ '' /bin/bash -c "'' @
                         make_install p opts path0 @ ''"'')) (\<lambda>_. resolve ()))\<close>

text \<open>Lines 179 to 235, the callback of \<open>deps.map\<close>: the promise for one dependency.\<close>

definition dependency_promise :: "process \<Rightarrow> options \<Rightarrow> 'w runner \<Rightarrow> dependency \<Rightarrow> ('w, unit) promise" where
  "dependency_promise p opts sh d =
     (if length (paths d) > 1 then reject (Message ambiguous)
      else install_dependency p opts sh d)"

text \<open>
  Lines 178 to 236. The promises of the array are made in order. One that is rejected
  when it is made (an ambiguous dependency, or the throw described above) rejects
  \<open>Promise.all\<close> before any callback of the file system runs, and the first of them in
  the array is the one whose reason is kept; the dispatcher then ends the process.
  Otherwise the installs run.
\<close>

fun rejected_at_once :: "dependency list \<Rightarrow> error option" where
  "rejected_at_once [] = None"
| "rejected_at_once (d # ds) =
     (if length (paths d) > 1 then Some (Message ambiguous)
      else if paths d = [] then Some TypeError
      else rejected_at_once ds)"

definition install_dependencies :: "process \<Rightarrow> options \<Rightarrow> 'w runner \<Rightarrow> dependency list \<Rightarrow> ('w, unit) promise" where
  "install_dependencies p opts sh deps =
     (case rejected_at_once deps of
        Some e \<Rightarrow> reject e
      | None \<Rightarrow> await (promise_all (map (dependency_promise p opts sh) deps)) (\<lambda>_. resolve ()))"

text \<open>Lines 150 to 176: the images, the container, then the dependencies and where they are.\<close>

definition resolve_dependencies :: "process \<Rightarrow> options \<Rightarrow> 'w runner \<Rightarrow> ('w, dependency list) promise" where
  "resolve_dependencies p opts sh =
     await (download p opts sh) (\<lambda>_.
     await (startToolchain p opts sh True) (\<lambda>_.
     case package_json p of
       None \<Rightarrow> reject ModuleNotFound
     | Some pkg \<Rightarrow> promise_all (map (resolve_dependency sh) (dependency_names pkg))))"

text \<open>\<open>install\<close>, lines 149 to 237.\<close>

definition install :: "process \<Rightarrow> options \<Rightarrow> 'w runner \<Rightarrow> ('w, unit) promise" where
  "install p opts sh =
     await (resolve_dependencies p opts sh) (\<lambda>deps. install_dependencies p opts sh deps)"

text \<open>
  What npm promises of \<open>npm ls\<close> with a package name: when it finds the package
  nowhere it exits with status 1, so that an output that comes with status 0 has at
  least one line that is not empty.
\<close>

definition npm_contract :: "'w runner \<Rightarrow> bool" where
  "npm_contract sh =
     (\<forall>dep w out w'. sh (''npm ls '' @ dep @ '' --parseable=true'') w = (Inr out, w') \<longrightarrow>
        filter truthy (split_where (\<lambda>c. c = newline) out) \<noteq> [])"

subsection \<open>The argument dispatcher\<close>

definition availableActions :: "(string \<times> action) list" where
  "availableActions =
     [(''start'', Start), (''download'', Download), (''init'', Init), (''install'', Install),
      (''make'', Make), (''stop'', Stop), (''buildDragon'', BuildDragon), (''update'', Update)]"

text \<open>
  \<open>availableActions\<close> is an object literal, so a look-up also finds the methods it
  inherits from \<open>Object.prototype\<close>. They are functions; the dispatcher calls the one
  it finds and then calls \<open>then\<close> on what comes back, which throws a \<open>TypeError\<close>.
\<close>

definition inherited_methods :: "string list" where
  "inherited_methods =
     [''constructor'', ''hasOwnProperty'', ''isPrototypeOf'', ''propertyIsEnumerable'',
      ''toLocaleString'', ''toString'', ''valueOf'', ''__defineGetter__'',
      ''__defineSetter__'', ''__lookupGetter__'', ''__lookupSetter__'']"

text \<open>The callback of \<open>process.argv.forEach\<close>, lines 266 to 306.\<close>

definition argv_handler :: "process \<Rightarrow> string list \<Rightarrow> string \<Rightarrow> nat \<Rightarrow> dispatch \<Rightarrow> dispatch" where
  "argv_handler p argv val index d =
     (if index < 1 then d
      else if strip_prefix ''--mount-path='' val \<noteq> None then
        (case split_str ''--mount-path='' val of
           _ # piece # _ \<Rightarrow>
             d \<lparr> opts_now := (opts_now d) \<lparr> MOUNT_PATH := join (path p) [cwd p, piece] \<rparr> \<rparr>
         | _ \<Rightarrow> d \<lparr> ended := Some (Uncaught TypeError) \<rparr>)
      else if val = ''--byte-swap'' then d \<lparr> opts_now := (opts_now d) \<lparr> BYTE_SWAP := True \<rparr> \<rparr>
      else if val = ''--help'' then
        d \<lparr> printed := printed d @ ''Available actions:'' # map fst availableActions,
            ended := Some (Exit 0) \<rparr>
      else
        (case map_of availableActions val of
           Some functionToRun \<Rightarrow>
             d \<lparr> invoked := invoked d @ [(functionToRun, join_with '' '' (drop (index + 1) argv))] \<rparr>
         | None \<Rightarrow>
             if val \<in> set inherited_methods then d \<lparr> ended := Some (Uncaught TypeError) \<rparr>
             else d))"

text \<open>\<open>forEach\<close> calls the callback on every element with its index, until the process ends.\<close>

fun forEach :: "('a \<Rightarrow> nat \<Rightarrow> dispatch \<Rightarrow> dispatch) \<Rightarrow> nat \<Rightarrow> 'a list \<Rightarrow> dispatch \<Rightarrow> dispatch" where
  "forEach f index [] d = d"
| "forEach f index (val # vals) d =
     (let d' = f val index d in if ended d' = None then forEach f (Suc index) vals d' else d')"

definition dispatcher :: "process \<Rightarrow> string list \<Rightarrow> dispatch" where
  "dispatcher p argv =
     forEach (argv_handler p argv) 0 argv
       \<lparr> opts_now = default_options p, invoked = [], printed = [], ended = None \<rparr>"


text \<open>The arguments at which the loop ends: \<open>--help\<close>, and the names of inherited methods.\<close>

definition halts :: "string \<Rightarrow> bool" where
  "halts val = (val = ''--help'' \<or> val \<in> set inherited_methods)"

text \<open>
  The call the loop makes for the argument at index \<open>i\<close>, if that argument names an
  action: the action, with the arguments after \<open>i\<close> joined by blanks.
\<close>

definition call_at :: "string list \<Rightarrow> nat \<Rightarrow> (action \<times> string) list" where
  "call_at argv i =
     (case map_of availableActions (argv ! i) of
        Some a \<Rightarrow> [(a, join_with '' '' (drop (Suc i) argv))]
      | None \<Rightarrow> [])"

text \<open>\<open>t\<close> occurs somewhere in \<open>s\<close>.\<close>

fun occurs :: "string \<Rightarrow> string \<Rightarrow> bool" where
  "occurs t [] = (t = [])"
| "occurs t (c # cs) = (strip_prefix t (c # cs) \<noteq> None \<or> occurs t cs)"

subsection \<open>The container engine\<close>

text \<open>
  The script's effects live in the store of the container engine. The model below is
  the engine as the script's commands see it: a list of containers, each with an id
  and a name, and the commands \<open>container ls\<close>, \<open>ps\<close>, \<open>rm\<close>, \<open>run\<close>, \<open>start\<close>
  and \<open>exec\<close>. Everything else (make, npm, the image commands, and what runs inside a
  container) touches no container; its result comes from \<open>host\<close> or \<open>guest\<close>.
\<close>

definition whitespace :: "char \<Rightarrow> bool" where
  "whitespace c = (c = CHR '' '' \<or> c = newline \<or> c = CHR 0x09)"

fun words_from :: "string \<Rightarrow> string \<Rightarrow> string list" where
  "words_from w [] = (if w = [] then [] else [w])"
| "words_from w (c # cs) =
     (if whitespace c then (if w = [] then words_from [] cs else w # words_from [] cs)
      else words_from (w @ [c]) cs)"

definition words :: "string \<Rightarrow> string list" where
  "words s = words_from [] s"

definition named :: "string \<Rightarrow> store \<Rightarrow> container list" where
  "named n cs = filter (\<lambda>c. cname c = n) cs"

text \<open>
  The filter of a listing is the text after \<open>name=\<close>, a regular expression that the
  engine matches against the names; which names it selects is the engine's
  \<open>name_filter\<close>. \<open>-q\<close> prints one id on each line.
\<close>

definition selected :: "engine \<Rightarrow> string \<Rightarrow> store \<Rightarrow> container list" where
  "selected e f cs = filter (\<lambda>c. name_filter e f (cname c)) cs"

definition listing :: "engine \<Rightarrow> string \<Rightarrow> store \<Rightarrow> string" where
  "listing e f cs = concat (map (\<lambda>c. cid c @ [newline]) (selected e f cs))"

text \<open>A container is addressed by its id or, when no id matches, by its name.\<close>

definition find_container :: "store \<Rightarrow> string \<Rightarrow> container option" where
  "find_container cs t =
     (case find (\<lambda>c. cid c = t) cs of
        Some c \<Rightarrow> Some c
      | None \<Rightarrow> find (\<lambda>c. cname c = t) cs)"

fun remove_all :: "string list \<Rightarrow> store \<Rightarrow> bool \<times> store" where
  "remove_all [] cs = (True, cs)"
| "remove_all (t # ts) cs =
     (case find_container cs t of
        None \<Rightarrow> (case remove_all ts cs of (ok, cs') \<Rightarrow> (False, cs'))
      | Some c \<Rightarrow> remove_all ts (filter (\<lambda>d. cid d \<noteq> cid c) cs))"

text \<open>
  \<open>rm -f\<close> with the text that follows it. The interpreter takes the text up to the
  first line break as the arguments; anything after it would be a command of its own,
  which the host does not have.
\<close>

definition docker_rm :: "string \<Rightarrow> store \<Rightarrow> (nat + string) \<times> store" where
  "docker_rm args cs =
     (let targets = words (takeWhile (\<lambda>c. c \<noteq> newline) args);
          more = words (dropWhile (\<lambda>c. c \<noteq> newline) args)
      in case (if targets = [] then (False, cs) else remove_all targets cs) of
           (ok, cs') \<Rightarrow>
             (if more \<noteq> [] then Inl 127
              else if ok then Inr (concat (map (\<lambda>t. t @ [newline]) targets))
              else Inl 1, cs'))"

text \<open>An id that no container of the store has.\<close>

definition fresh_id :: "store \<Rightarrow> string" where
  "fresh_id cs = replicate (Suc (fold (\<lambda>c n. max (length (cid c)) n) cs 0)) (CHR ''0'')"

text \<open>
  The engine accepts as a container name two or more letters, digits, \<open>_\<close>, \<open>-\<close> and
  dots, the first of them a letter or a digit. A plain name is such a name without a
  dot.
\<close>

definition first_chars :: string where
  "first_chars = ''abcdefghijklmnopqrstuvwxyzABCDEFGHIJKLMNOPQRSTUVWXYZ0123456789''"

definition name_chars :: string where
  "name_chars = first_chars @ ''_-''"

definition docker_name :: "string \<Rightarrow> bool" where
  "docker_name n =
     (2 \<le> length n \<and> hd n \<in> set first_chars \<and> (\<forall>c \<in> set n. c \<in> set (name_chars @ ''.'')))"

definition plain_name :: "string \<Rightarrow> bool" where
  "plain_name n =
     (2 \<le> length n \<and> hd n \<noteq> CHR ''_'' \<and> hd n \<noteq> CHR ''-''
      \<and> (\<forall>c \<in> set n. c \<in> set name_chars))"

text \<open>
  \<open>run\<close> with its whole command line and the name read from it. It fails when the
  engine does not accept the name, when it cannot carry out the command line (no image
  on the line, an image or a bind source that is not there: \<open>creates\<close> says which lines
  it can carry out), and when the name is taken (on an engine that refuses that, as
  Docker does); nothing is created then. Otherwise there is one more container,
  running, under that name.
\<close>

definition docker_run :: "engine \<Rightarrow> string \<Rightarrow> string \<Rightarrow> store \<Rightarrow> (nat + string) \<times> store" where
  "docker_run e cmd n cs =
     (if \<not> docker_name n \<or> \<not> creates e cmd
         \<or> (refuses_taken e \<and> (\<exists>c \<in> set cs. cname c = n))
      then (Inl 125, cs)
      else (Inr (fresh_id cs @ [newline]),
            cs @ [\<lparr> cid = fresh_id cs, cname = n, running = True \<rparr>]))"

definition docker_start :: "string \<Rightarrow> store \<Rightarrow> (nat + string) \<times> store" where
  "docker_start t cs =
     (case find_container cs t of
        None \<Rightarrow> (Inl 1, cs)
      | Some c \<Rightarrow>
          (Inr (t @ [newline]),
           map (\<lambda>d. if cid d = cid c then d \<lparr> running := True \<rparr> else d) cs))"

definition docker_exec :: "engine \<Rightarrow> string \<Rightarrow> string \<Rightarrow> store \<Rightarrow> (nat + string) \<times> store" where
  "docker_exec e t cmd cs =
     (case find_container cs t of
        None \<Rightarrow> (Inl 1, cs)
      | Some c \<Rightarrow> if running c then (guest e cmd, cs) else (Inl 1, cs))"

definition not_blank :: "char \<Rightarrow> bool" where
  "not_blank c = (c \<noteq> CHR '' '')"

definition docker :: "engine \<Rightarrow> store runner" where
  "docker e cmd cs =
     (case strip_prefix ''docker container ls -qa -f name='' cmd of
        Some f \<Rightarrow> (Inr (listing e f cs), cs)
      | None \<Rightarrow>
     (case strip_prefix ''docker ps -a -q -f name='' cmd of
        Some f \<Rightarrow> (Inr (listing e f cs), cs)
      | None \<Rightarrow>
     (case strip_prefix ''docker container rm -f '' cmd of
        Some r \<Rightarrow> docker_rm r cs
      | None \<Rightarrow>
     (case strip_prefix ''docker rm -f '' cmd of
        Some r \<Rightarrow> docker_rm r cs
      | None \<Rightarrow>
     (case strip_prefix ''docker run --name='' cmd of
        Some r \<Rightarrow> docker_run e cmd (takeWhile not_blank r) cs
      | None \<Rightarrow>
     (case strip_prefix ''docker start '' cmd of
        Some r \<Rightarrow> docker_start r cs
      | None \<Rightarrow>
     (case strip_prefix ''docker exec '' cmd of
        Some r \<Rightarrow> docker_exec e (takeWhile not_blank r) (drop 1 (dropWhile not_blank r)) cs
      | None \<Rightarrow> (host e cmd, cs))))))))"

text \<open>The name the engine reads from the script's \<open>run\<close>, whatever the project name is.\<close>

definition run_name :: "process \<Rightarrow> options \<Rightarrow> bool \<Rightarrow> string" where
  "run_name p opts fl =
     takeWhile not_blank (drop (length ''docker run --name='') (run_command p opts fl))"

text \<open>
  What the engine keeps true of its store: ids are unique and each is a word; on an
  engine that refuses a taken name, names are unique as well.
\<close>

definition valid_id :: "string \<Rightarrow> bool" where
  "valid_id i = (i \<noteq> [] \<and> (\<forall>c \<in> set i. \<not> whitespace c))"

definition ids_ok :: "store \<Rightarrow> bool" where
  "ids_ok cs = (distinct (map cid cs) \<and> (\<forall>c \<in> set cs. valid_id (cid c)))"

definition wf_store :: "store \<Rightarrow> bool" where
  "wf_store cs =
     (distinct (map cid cs) \<and> distinct (map cname cs) \<and> (\<forall>c \<in> set cs. valid_id (cid c)))"

text \<open>At most one container of the store bears the name.\<close>

definition at_most_one :: "string \<Rightarrow> store \<Rightarrow> bool" where
  "at_most_one n cs = (length (named n cs) \<le> 1)"

definition sound :: "string \<Rightarrow> store \<Rightarrow> bool" where
  "sound n cs = (ids_ok cs \<and> at_most_one n cs)"

text \<open>
  The filter the script writes for a name, and what can be said of it on an engine: it
  selects the name itself (as it does when the name has no character that is special in
  a regular expression other than the dot), and, in a store, it selects no container of
  another name (as when the name has no dot, or no other name looks like it).
\<close>

definition name_pattern :: "string \<Rightarrow> string" where
  "name_pattern n = ''^/'' @ n @ ''$''"

definition selects_own :: "engine \<Rightarrow> string \<Rightarrow> bool" where
  "selects_own e n = name_filter e (name_pattern n) n"

definition selects_only :: "engine \<Rightarrow> string \<Rightarrow> store \<Rightarrow> bool" where
  "selects_only e n cs =
     (\<forall>c \<in> set cs. name_filter e (name_pattern n) (cname c) \<longrightarrow> cname c = n)"

text \<open>An operation started in a store, with nothing issued before it.\<close>

definition fresh :: "'w \<Rightarrow> 'w state" where
  "fresh w = \<lparr> world = w, issued = [] \<rparr>"

text \<open>The command lines an operation hands to the interpreter when it runs in \<open>s\<close>.\<close>

definition issued_by :: "('w, 'a) promise \<Rightarrow> 'w state \<Rightarrow> string list" where
  "issued_by m s = drop (length (issued s)) (issued (snd (m s)))"


subsection \<open>Sample processes, interpreters and stores\<close>

text \<open>A process on a POSIX host, outside the container, with nothing set in its environment.\<close>

definition host_process :: process where
  "host_process =
     \<lparr> env = (\<lambda>_. None), cwd = ''/home/user/game'', version = ''1.0.0'', path = posix,
       package_json = Some \<lparr> dependencies = [''libdragon'', ''a''], devDependencies = [''b''] \<rparr>,
       access = (\<lambda>_. True) \<rparr>"

text \<open>The same process inside the container, and in a CI run.\<close>

definition container_process :: process where
  "container_process = host_process \<lparr> env := (\<lambda>_. None)(''IS_DOCKER'' := Some ''true'') \<rparr>"

definition ci_process :: process where
  "ci_process = host_process \<lparr> env := (\<lambda>_. None)(''CI'' := Some ''true'') \<rparr>"

text \<open>Interpreters without a world: every command prints nothing, or an empty line.\<close>

definition quiet :: "unit runner" where
  "quiet cmd w = (Inr [], w)"

definition blank_line :: "unit runner" where
  "blank_line cmd w = (Inr [newline], w)"

text \<open>Programs that print nothing and succeed.\<close>

definition no_output :: "string \<Rightarrow> nat + string" where
  "no_output cmd = Inr []"

text \<open>
  A store with some other container and the toolchain's container, stopped; and the
  store without the latter.
\<close>

definition other_container :: container where
  "other_container = \<lparr> cid = ''ab12'', cname = ''other'', running = True \<rparr>"

definition stopped_toolchain :: container where
  "stopped_toolchain = \<lparr> cid = ''cd34'', cname = ''libdragon'', running = False \<rparr>"

definition sample_store :: store where
  "sample_store = [other_container, stopped_toolchain]"

definition store_without :: store where
  "store_without = [other_container]"

text \<open>
  An engine whose filter selects exactly the name the script asks for, which has the
  image of version 1.0.0 and the directory of the project, so that it can carry out
  the \<open>run\<close> below and no other, and which refuses a taken name. Then the same engine
  without the image, so that it can carry out no \<open>run\<close>; the same engine where a
  taken name is not refused; and one whose filter treats the dot of a name as any
  character, as a regular expression does.
\<close>

definition exact_match :: "string \<Rightarrow> string \<Rightarrow> bool" where
  "exact_match f n = (f = ''^/'' @ n @ ''$'')"

definition sample_run :: string where
  \<open>sample_run =
     ''docker run --name=libdragon -e IS_DOCKER=true -d --mount type=bind,source="/home/user/game",target=/libdragon -w="/libdragon" anacierdem/libdragon:1.0.0 tail -f /dev/null''\<close>

definition sample_engine :: engine where
  "sample_engine =
     \<lparr> host = no_output, guest = no_output, name_filter = exact_match,
       creates = (\<lambda>cmd. cmd = sample_run), refuses_taken = True \<rparr>"


definition lax_engine :: engine where
  "lax_engine = sample_engine \<lparr> refuses_taken := False \<rparr>"






text \<open>
  Interpreters that answer \<open>npm ls\<close> from a table, as npm does: the paths where the
  package is installed, or, when it is installed nowhere, exit status 1. They print
  nothing for any other command. The project of \<open>host_process\<close> depends on \<open>a\<close> and \<open>b\<close>;
  \<open>a\<close> is installed in one place and \<open>b\<close> in two.
\<close>

definition npm_answers :: "(string \<times> string) list \<Rightarrow> unit runner" where
  "npm_answers table cmd w =
     (case map_of table cmd of
        Some out \<Rightarrow> (Inr out, w)
      | None \<Rightarrow> (if strip_prefix ''npm ls '' cmd = None then Inr [] else Inl 1, w))"

definition two_places :: string where
  "two_places =
     ''/home/user/game/node_modules/b\<newline>/home/user/game/node_modules/a/node_modules/b\<newline>''"

definition one_and_two :: "(string \<times> string) list" where
  "one_and_two =
     [(''npm ls a --parseable=true'', ''/home/user/game/node_modules/a\<newline>''),
      (''npm ls b --parseable=true'', two_places)]"

text \<open>
  A process on a Windows host, in a project on drive C, and a dependency of that project
  with a scoped name, two directories below \<open>node_modules\<close>.
\<close>

definition win_path :: "string list \<Rightarrow> string" where
  "win_path segs = join_with [backslash] segs"

definition win_process :: process where
  "win_process =
     \<lparr> env = (\<lambda>_. None), cwd = win_path [''C:'', ''game''], version = ''1.0.0'', path = win32,
       package_json = Some \<lparr> dependencies = [''libdragon'', ''@scope/pkg''], devDependencies = [] \<rparr>,
       access = (\<lambda>_. True) \<rparr>"

definition scoped_package :: string where
  "scoped_package = win_path [''C:'', ''game'', ''node_modules'', ''@scope'', ''pkg'']"

section \<open>Properties\<close>

lemmas promise_defs = await_def resolve_def reject_def runCommand_def

subsection \<open>The derived self-build option\<close>

text \<open>
  Claim C5. For every project name and every value of the CI variable, the derived
  \<open>SELF_BUILD\<close> option is true exactly when the project name is \<open>libdragon\<close> and the CI
  variable is the string \<open>true\<close>.
\<close>

theorem self_build_iff:
  "SELF_BUILD (default_options p) =
     (PROJECT_NAME (default_options p) = ''libdragon'' \<and> env p ''CI'' = Some ''true'')"
  by (simp add: default_options_def Let_def)

theorem self_build_iff_witness:
  "SELF_BUILD (default_options ci_process) \<and> \<not> SELF_BUILD (default_options host_process)"
  using self_build_iff [of ci_process] self_build_iff [of host_process]
  by (simp add: default_options_def ci_process_def host_process_def or_default_def)

subsection \<open>Inside the container nothing is run\<close>

text \<open>
  Claim C4. For every option configuration and every command interpreter, when
  \<open>IS_DOCKER\<close> is \<open>true\<close> each of start, stop, download and update resolves at
  once: no command line is handed to the interpreter and the state is the one it
  started in.
\<close>

theorem in_docker_noop:
  assumes "env p ''IS_DOCKER'' = Some ''true''"
  shows "startToolchain p opts sh forceLatest s = (Inr (), s)
       \<and> stop p opts sh s = (Inr (), s)
       \<and> download p opts sh s = (Inr (), s)
       \<and> update p opts sh s = (Inr (), s)"
  using assms
  by (simp add: startToolchain_def stop_def download_def update_def in_docker_def resolve_def)

theorem in_docker_noop_witness:
  "env container_process ''IS_DOCKER'' = Some ''true''
   \<and> startToolchain container_process (default_options container_process) quiet False (fresh ())
       = (Inr (), fresh ())
   \<and> stop container_process (default_options container_process) quiet (fresh ()) = (Inr (), fresh ())
   \<and> download container_process (default_options container_process) quiet (fresh ())
       = (Inr (), fresh ())
   \<and> update container_process (default_options container_process) quiet (fresh ()) = (Inr (), fresh ())"
proof -
  have h: "env container_process ''IS_DOCKER'' = Some ''true''"
    by (simp add: container_process_def)
  from in_docker_noop [OF h, of "default_options container_process" quiet False "fresh ()"] h
  show ?thesis by simp
qed

subsection \<open>When a container counts as found\<close>

lemma start_issued:
  assumes "\<not> in_docker p" and "sh (ls_command opts) (world s) = (Inr L, w)"
  shows "issued_by (startToolchain p opts sh fl) s =
           (if L = [] then [ls_command opts, run_command p opts fl]
            else case sh (rm_id_command L) w of
                   (Inl e, w') \<Rightarrow> [ls_command opts, rm_id_command L]
                 | (Inr x, w') \<Rightarrow> [ls_command opts, rm_id_command L, run_command p opts fl])"
  using assms
  by (auto simp: issued_by_def startToolchain_def promise_defs truthy_def split: prod.splits sum.splits)

lemma stop_issued:
  assumes "\<not> in_docker p" and "sh (ps_command opts) (world s) = (Inr L, w)"
  shows "issued_by (stop p opts sh) s =
           (if L = [] then [ps_command opts] else [ps_command opts, rm_name_command opts])"
  using assms
  by (auto simp: issued_by_def stop_def promise_defs truthy_def split: prod.splits sum.splits)

lemma removal_is_no_other_command:
  "ls_command opts \<noteq> rm_id_command L" "run_command p opts fl \<noteq> rm_id_command L"
  "ps_command opts \<noteq> rm_name_command opts"
  "rm_id_command L \<noteq> ls_command opts" "rm_id_command L \<noteq> run_command p opts fl"
  "rm_name_command opts \<noteq> ps_command opts"
  by (simp_all add: ls_command_def rm_id_command_def run_command_def ps_command_def
        rm_name_command_def)

text \<open>
  Claim C3, as the code has it. Outside the container, for every text \<open>L\<close> that the
  name-filtered listing prints, \<open>startToolchain\<close> and \<open>stop\<close> issue their removal
  command exactly when \<open>L\<close> is not the empty string. A listing of white space only is not
  empty, so it counts as found.
\<close>

theorem found_iff_nonempty:
  assumes "\<not> in_docker p"
  shows "(sh (ls_command opts) (world s) = (Inr L, w) \<longrightarrow>
           (rm_id_command L \<in> set (issued_by (startToolchain p opts sh fl) s)) = (L \<noteq> []))
       \<and> (sh (ps_command opts) (world s) = (Inr L, w) \<longrightarrow>
           (rm_name_command opts \<in> set (issued_by (stop p opts sh) s)) = (L \<noteq> []))"
proof (intro conjI impI)
  assume ls: "sh (ls_command opts) (world s) = (Inr L, w)"
  obtain r w' where rm: "sh (rm_id_command L) w = (r, w')"
    by (cases "sh (rm_id_command L) w")
  show "(rm_id_command L \<in> set (issued_by (startToolchain p opts sh fl) s)) = (L \<noteq> [])"
    by (cases r) (simp_all add: start_issued [where sh = sh, OF assms ls] rm
          removal_is_no_other_command)
next
  assume ps: "sh (ps_command opts) (world s) = (Inr L, w)"
  show "(rm_name_command opts \<in> set (issued_by (stop p opts sh) s)) = (L \<noteq> [])"
    by (simp add: stop_issued [where sh = sh, OF assms ps] removal_is_no_other_command)
qed

theorem found_iff_nonempty_witness:
  "\<not> in_docker host_process
   \<and> quiet (ls_command (default_options host_process)) (world (fresh ())) = (Inr [], ())
   \<and> quiet (ps_command (default_options host_process)) (world (fresh ())) = (Inr [], ())
   \<and> rm_id_command [] \<notin> set (issued_by (startToolchain host_process (default_options host_process) quiet False) (fresh ()))
   \<and> rm_name_command (default_options host_process) \<notin> set (issued_by (stop host_process (default_options host_process) quiet) (fresh ()))"
proof -
  have h: "\<not> in_docker host_process"
    by (simp add: in_docker_def host_process_def)
  have q: "quiet c (world (fresh ())) = (Inr [], ())" for c
    by (simp add: quiet_def fresh_def)
  from found_iff_nonempty [OF h, of quiet "default_options host_process" "fresh ()" "[]" "()" False]
    h q
  show ?thesis by simp
qed

text \<open>
  The listing that is a lone line break: it is white space only, and both operations
  issue their removal command for it.
\<close>

theorem blank_listing_counts_as_found:
  "whitespace newline
   \<and> blank_line (ls_command (default_options host_process)) () = (Inr [newline], ())
   \<and> blank_line (ps_command (default_options host_process)) () = (Inr [newline], ())
   \<and> rm_id_command [newline] \<in> set (issued_by (startToolchain host_process (default_options host_process) blank_line False) (fresh ()))
   \<and> rm_name_command (default_options host_process) \<in> set (issued_by (stop host_process (default_options host_process) blank_line) (fresh ()))"
proof -
  have h: "\<not> in_docker host_process"
    by (simp add: in_docker_def host_process_def)
  have b: "blank_line c (world (fresh ())) = (Inr [newline], ())" for c
    by (simp add: blank_line_def fresh_def)
  have "issued_by (startToolchain host_process (default_options host_process) blank_line False) (fresh ())
          = [ls_command (default_options host_process), rm_id_command [newline],
             run_command host_process (default_options host_process) False]"
    by (simp add: start_issued [where sh = blank_line, OF h b] blank_line_def)
  moreover have "issued_by (stop host_process (default_options host_process) blank_line) (fresh ())
          = [ps_command (default_options host_process), rm_name_command (default_options host_process)]"
    by (simp add: stop_issued [where sh = blank_line, OF h b])
  ultimately show ?thesis
    by (simp add: whitespace_def blank_line_def)
qed

subsection \<open>The engine on the script's commands\<close>

lemma docker_ls:
  "docker e (ls_command opts) cs = (Inr (listing e (name_pattern (PROJECT_NAME opts)) cs), cs)"
  by (simp add: docker_def ls_command_def name_pattern_def)


lemma docker_rm_id: "docker e (rm_id_command L) cs = docker_rm L cs"
  by (simp add: docker_def rm_id_command_def)



lemma no_space_in_names:
  "CHR '' '' \<notin> set name_chars" "newline \<notin> set name_chars" "CHR 0x09 \<notin> set name_chars"
  "CHR '' '' \<notin> set (name_chars @ ''.'')"
  by (simp_all add: name_chars_def first_chars_def newline_def)


lemma docker_name_not_blank: "docker_name n \<Longrightarrow> c \<in> set n \<Longrightarrow> not_blank c"
  unfolding docker_name_def not_blank_def
  using no_space_in_names(4) by blast

lemma takeWhile_not_blank:
  "(\<And>c. c \<in> set n \<Longrightarrow> not_blank c) \<Longrightarrow> takeWhile not_blank (n @ CHR '' '' # r) = n"
proof -
  assume n: "\<And>c. c \<in> set n \<Longrightarrow> not_blank c"
  have "takeWhile not_blank (n @ CHR '' '' # r) = takeWhile not_blank n"
    by (rule takeWhile_tail) (simp add: not_blank_def)
  also have "\<dots> = n"
    using n by simp
  finally show ?thesis .
qed


lemma takeWhile_docker_name: "docker_name n \<Longrightarrow> takeWhile not_blank (n @ CHR '' '' # r) = n"
  by (rule takeWhile_not_blank) (simp add: docker_name_not_blank)


lemma docker_run_cmd:
  "docker e (run_command p opts fl) cs
     = docker_run e (run_command p opts fl) (run_name p opts fl) cs"
  by (simp add: docker_def run_name_def run_command_def)

lemma run_name_docker: "docker_name (PROJECT_NAME opts) \<Longrightarrow> run_name p opts fl = PROJECT_NAME opts"
  by (simp add: run_name_def run_command_def takeWhile_docker_name)


lemma named_le1: "distinct (map cname cs) \<Longrightarrow> length (named n cs) \<le> 1"
proof (induction cs)
  case Nil then show ?case by (simp add: named_def)
next
  case (Cons a cs)
  show ?case
  proof (cases "cname a = n")
    case True
    with Cons.prems have "n \<notin> cname ` set cs" by simp
    then have "\<forall>c \<in> set cs. cname c \<noteq> n" by blast
    then have "named n cs = []" by (simp add: named_def filter_empty_conv)
    with True show ?thesis by (simp add: named_def)
  next
    case False
    with Cons show ?thesis by (simp add: named_def)
  qed
qed

lemma at_most_one_cases:
  assumes "at_most_one n cs"
  obtains "named n cs = []" | c where "named n cs = [c]" "c \<in> set cs" "cname c = n"
proof (cases "named n cs")
  case Nil then show ?thesis using that by simp
next
  case (Cons c r)
  with assms have r: "r = []" by (simp add: at_most_one_def)
  have "c \<in> set (named n cs)" using Cons by simp
  then have "c \<in> set cs" "cname c = n" by (simp_all add: named_def)
  with Cons r show ?thesis using that by simp
qed

lemma wf_store_sound: "wf_store cs \<Longrightarrow> sound n cs"
  using named_le1 [of cs n] by (simp add: wf_store_def sound_def ids_ok_def at_most_one_def)

lemma words_from_word:
  "(\<forall>c \<in> set i. \<not> whitespace c) \<Longrightarrow> w @ i \<noteq> [] \<Longrightarrow> words_from w i = [w @ i]"
  by (induction i arbitrary: w) auto

lemma words_word: "valid_id i \<Longrightarrow> words i = [i]"
  using words_from_word [of i "[]"] by (simp add: words_def valid_id_def)

lemma words_newline: "words [newline] = []"
  by (simp add: words_def whitespace_def)

lemma words_from_more:
  "(\<forall>c \<in> set i. \<not> whitespace c) \<Longrightarrow> w @ i \<noteq> [] \<Longrightarrow> words_from w (i @ newline # r) \<noteq> []"
  by (induction i arbitrary: w) (auto simp: whitespace_def)

lemma words_second_line: "valid_id i \<Longrightarrow> words (newline # i @ newline # r) \<noteq> []"
  using words_from_more [of i "[]" r] by (simp add: words_def valid_id_def whitespace_def)

lemma id_line:
  assumes "valid_id i"
  shows "takeWhile (\<lambda>c. c \<noteq> newline) (i @ newline # r) = i"
    and "dropWhile (\<lambda>c. c \<noteq> newline) (i @ newline # r) = newline # r"
proof -
  have n: "\<forall>c \<in> set i. c \<noteq> newline"
    using assms by (auto simp: valid_id_def whitespace_def)
  have "takeWhile (\<lambda>c. c \<noteq> newline) (i @ newline # r) = takeWhile (\<lambda>c. c \<noteq> newline) i"
    by (rule takeWhile_tail) simp
  with n show "takeWhile (\<lambda>c. c \<noteq> newline) (i @ newline # r) = i" by simp
  have "dropWhile (\<lambda>c. c \<noteq> newline) (i @ newline # r) = dropWhile (\<lambda>c. c \<noteq> newline) i @ newline # r"
    by (rule dropWhile_append3) simp
  with n show "dropWhile (\<lambda>c. c \<noteq> newline) (i @ newline # r) = newline # r" by simp
qed

lemma find_by_id:
  assumes "c \<in> set cs"
  shows "\<exists>c'. find_container cs (cid c) = Some c' \<and> cid c' = cid c"
proof -
  from assms have "find (\<lambda>d. cid d = cid c) cs \<noteq> None"
    by (auto simp: find_None_iff)
  then obtain c' where f: "find (\<lambda>d. cid d = cid c) cs = Some c'" by auto
  then have "cid c' = cid c" by (auto simp: find_Some_iff)
  with f show ?thesis by (simp add: find_container_def)
qed

lemma rm_listed:
  assumes "c \<in> set cs" and "valid_id (cid c)"
  shows "docker_rm (cid c @ [newline]) cs
           = (Inr (cid c @ [newline]), filter (\<lambda>d. cid d \<noteq> cid c) cs)"
proof -
  from find_by_id [OF assms(1)] obtain c' where
    "find_container cs (cid c) = Some c'" "cid c' = cid c" by blast
  then show ?thesis
    by (simp add: docker_rm_def id_line [OF assms(2)] words_word [OF assms(2)] words_newline)
qed

lemma fresh_id_longer:
  fixes cs :: store
  shows "c \<in> set cs \<Longrightarrow> length (cid c) \<le> fold (\<lambda>c n. max (length (cid c)) n) cs k"
proof (induction cs arbitrary: k)
  case Nil then show ?case by simp
next
  case (Cons d cs)
  have mono: "k \<le> fold (\<lambda>c n. max (length (cid c)) n) xs k" for xs :: store and k
    by (induction xs arbitrary: k) (auto intro: le_trans [OF max.cobounded2])
  show ?case
  proof (cases "c = d")
    case True
    have "length (cid d) \<le> max (length (cid d)) k" by simp
    also have "\<dots> \<le> fold (\<lambda>c n. max (length (cid c)) n) cs (max (length (cid d)) k)" by (rule mono)
    finally show ?thesis using True by simp
  next
    case False
    with Cons show ?thesis by simp
  qed
qed

lemma fresh_id_new: "fresh_id cs \<notin> cid ` set cs"
proof
  assume "fresh_id cs \<in> cid ` set cs"
  then obtain c where c: "c \<in> set cs" "cid c = fresh_id cs" by auto
  from fresh_id_longer [OF c(1), of 0] c(2) show False
    by (simp add: fresh_id_def)
qed

lemma fresh_id_valid: "valid_id (fresh_id cs)"
  by (simp add: fresh_id_def valid_id_def whitespace_def newline_def)

text \<open>What the commands of the engine do to a store with at most one container of a name.\<close>

lemma named_filter: "named n (filter P cs) = filter P (named n cs)"
  by (simp add: named_def conj_commute)

lemma sound_filter: "sound n cs \<Longrightarrow> sound n (filter P cs)"
proof -
  assume s: "sound n cs"
  have "length (filter P (named n cs)) \<le> length (named n cs)" by simp
  also from s have "\<dots> \<le> 1" by (simp add: sound_def at_most_one_def)
  finally have "length (filter P (named n cs)) \<le> 1" .
  with s show ?thesis
    by (simp add: sound_def ids_ok_def at_most_one_def distinct_map_filter named_filter)
qed

lemma remove_all_sound: "sound n cs \<Longrightarrow> sound n (snd (remove_all ts cs))"
proof (induction ts arbitrary: cs)
  case Nil then show ?case by simp
next
  case (Cons t ts)
  show ?case
  proof (cases "find_container cs t")
    case None
    with Cons.IH [OF Cons.prems] show ?thesis by (cases "remove_all ts cs") simp
  next
    case (Some c)
    from Cons.prems have "sound n (filter (\<lambda>d. cid d \<noteq> cid c) cs)" by (rule sound_filter)
    then have "sound n (snd (remove_all ts (filter (\<lambda>d. cid d \<noteq> cid c) cs)))" by (rule Cons.IH)
    with Some show ?thesis by simp
  qed
qed

lemma rm_sound: "sound n cs \<Longrightarrow> sound n (snd (docker_rm r cs))"
  using remove_all_sound [of n cs "words (takeWhile (\<lambda>c. c \<noteq> newline) r)"]
  by (auto simp: docker_rm_def Let_def split: prod.splits)




lemma run_one:
  assumes "sound n cs" and "refuses_taken e \<or> named n cs = []"
    and "docker_run e cmd n cs = (Inr out, cs')"
  shows "length (named n cs') = 1"
proof -
  from assms(3) have ok: "\<not> (refuses_taken e \<and> (\<exists>c \<in> set cs. cname c = n))"
    and cs': "cs' = cs @ [\<lparr> cid = fresh_id cs, cname = n, running = True \<rparr>]"
    by (auto simp: docker_run_def split: if_splits)
  from ok have "refuses_taken e \<Longrightarrow> named n cs = []"
    by (auto simp: named_def filter_empty_conv)
  with assms(2) have "named n cs = []" by blast
  with cs' show ?thesis by (simp add: named_def)
qed


text \<open>The listing of a name, and the removal of what it lists.\<close>

lemma listing_empty:
  assumes "listing e (name_pattern n) cs = []" and "selects_own e n"
  shows "named n cs = []"
proof -
  from assms(1) have "selected e (name_pattern n) cs = []"
    by (cases "selected e (name_pattern n) cs") (simp_all add: listing_def)
  then have "\<forall>c \<in> set cs. \<not> name_filter e (name_pattern n) (cname c)"
    by (simp add: selected_def filter_empty_conv)
  with assms(2) have "\<forall>c \<in> set cs. cname c \<noteq> n"
    by (auto simp: selects_own_def)
  then show ?thesis by (simp add: named_def filter_empty_conv)
qed

lemma rm_of_listing:
  assumes ids: "ids_ok cs" and own: "selects_own e n"
    and rm: "docker_rm (listing e (name_pattern n) cs) cs = (Inr out, cs1)"
  shows "named n cs1 = []"
proof (cases "selected e (name_pattern n) cs")
  case Nil
  with rm show ?thesis by (simp add: listing_def docker_rm_def words_def)
next
  case (Cons c sel)
  then have "c \<in> set (selected e (name_pattern n) cs)" by simp
  then have c: "c \<in> set cs" by (simp add: selected_def)
  with ids have v: "valid_id (cid c)" by (simp add: ids_ok_def)
  show ?thesis
  proof (cases sel)
    case Nil
    with Cons have l: "listing e (name_pattern n) cs = cid c @ [newline]"
      by (simp add: listing_def)
    from rm have cs1: "cs1 = filter (\<lambda>d. cid d \<noteq> cid c) cs"
      unfolding l rm_listed [OF c v] by simp
    have "d \<in> set cs \<Longrightarrow> cname d = n \<Longrightarrow> cid d = cid c" for d
    proof -
      assume d: "d \<in> set cs" "cname d = n"
      with own have "d \<in> set (selected e (name_pattern n) cs)"
        by (simp add: selected_def selects_own_def)
      with Cons Nil show "cid d = cid c" by simp
    qed
    then show ?thesis
      unfolding cs1 named_def by (auto simp: filter_empty_conv)
  next
    case (Cons c2 sel2)
    with \<open>selected e (name_pattern n) cs = c # sel\<close>
    have "c2 \<in> set (selected e (name_pattern n) cs)" by simp
    then have "c2 \<in> set cs" by (simp add: selected_def)
    with ids have v2: "valid_id (cid c2)" by (simp add: ids_ok_def)
    from Cons \<open>selected e (name_pattern n) cs = c # sel\<close>
    have l: "listing e (name_pattern n) cs
               = cid c @ newline # cid c2 @ newline # concat (map (\<lambda>c. cid c @ [newline]) sel2)"
      by (simp add: listing_def)
    from rm show ?thesis
      unfolding l docker_rm_def
      by (simp add: id_line [OF v] words_second_line [OF v2] Let_def split: prod.splits)
  qed
qed


lemma start_resolved_one:
  assumes out: "\<not> in_docker p" and n: "docker_name (PROJECT_NAME opts)"
    and snd: "sound (PROJECT_NAME opts) (world s)"
    and mode: "refuses_taken e \<or> selects_own e (PROJECT_NAME opts)"
    and ok: "fst (startToolchain p opts (docker e) fl s) = Inr ()"
  shows "length (named (PROJECT_NAME opts) (world (snd (startToolchain p opts (docker e) fl s)))) = 1"
proof -
  let ?N = "PROJECT_NAME opts"
  let ?cs = "world s" and ?L = "listing e (name_pattern ?N) (world s)"
  note rn = run_name_docker [OF n, of p fl]
  show ?thesis
  proof (cases "truthy ?L")
    case no: False
    then have "?L = []" by (simp add: truthy_def)
    with mode have free: "refuses_taken e \<or> named ?N ?cs = []"
      using listing_empty [of e ?N ?cs] by blast
    obtain r cs2 where run: "docker_run e (run_command p opts fl) ?N ?cs = (r, cs2)"
      by (cases "docker_run e (run_command p opts fl) ?N ?cs")
    with ok out no obtain out2 where "r = Inr out2"
      by (cases r) (simp_all add: startToolchain_def promise_defs docker_ls docker_run_cmd rn)
    with run_one [OF snd free] run have "length (named ?N cs2) = 1" by simp
    with out no run show ?thesis
      by (simp add: startToolchain_def promise_defs docker_ls docker_run_cmd rn split: sum.splits)
  next
    case yes: True
    obtain r1 cs1 where rm: "docker_rm ?L ?cs = (r1, cs1)" by (cases "docker_rm ?L ?cs")
    from rm_sound [OF snd, of ?L] rm have s1: "sound ?N cs1" by simp
    from ok out yes rm obtain out1 where r1: "r1 = Inr out1"
      by (cases r1) (simp_all add: startToolchain_def promise_defs docker_ls docker_rm_id)
    from snd have "ids_ok ?cs" by (simp add: sound_def)
    with mode rm r1 have free: "refuses_taken e \<or> named ?N cs1 = []"
      using rm_of_listing [of ?cs e ?N out1 cs1] by blast
    obtain r cs2 where run: "docker_run e (run_command p opts fl) ?N cs1 = (r, cs2)"
      by (cases "docker_run e (run_command p opts fl) ?N cs1")
    with ok out yes rm r1 obtain out2 where "r = Inr out2"
      by (cases r)
         (simp_all add: startToolchain_def promise_defs docker_ls docker_rm_id docker_run_cmd rn)
    with run_one [OF s1 free] run have "length (named ?N cs2) = 1" by simp
    with out yes rm r1 run show ?thesis
      by (simp add: startToolchain_def promise_defs docker_ls docker_rm_id docker_run_cmd rn
               split: sum.splits)
  qed
qed

text \<open>
  Where the filter is exact and the engine can carry out the \<open>run\<close>, \<open>startToolchain\<close>
  resolves, and the filter stays exact.
\<close>

lemma selected_exact:
  assumes "selects_own e n" and "selects_only e n cs"
  shows "selected e (name_pattern n) cs = named n cs"
  unfolding selected_def named_def
  using assms by (intro filter_cong) (auto simp: selects_own_def selects_only_def)

lemma run_free:
  assumes "sound n cs" and "named n cs = []" and "docker_name n" and "creates e cmd"
    and "selects_only e n cs"
  shows "\<exists>out cs'. docker_run e cmd n cs = (Inr out, cs') \<and> sound n cs' \<and> selects_only e n cs'
           \<and> length (named n cs') = 1"
proof -
  from assms(2) have free: "\<forall>c \<in> set cs. cname c \<noteq> n"
    by (simp add: named_def filter_empty_conv)
  with assms fresh_id_new [of cs] fresh_id_valid [of cs] show ?thesis
    by (auto simp: docker_run_def sound_def ids_ok_def at_most_one_def named_def selects_only_def)
qed

lemma start_on_docker:
  assumes out: "\<not> in_docker p" and n: "docker_name (PROJECT_NAME opts)"
    and snd: "sound (PROJECT_NAME opts) (world s)"
    and own: "selects_own e (PROJECT_NAME opts)"
    and only: "selects_only e (PROJECT_NAME opts) (world s)"
    and cr: "creates e (run_command p opts fl)"
  shows "fst (startToolchain p opts (docker e) fl s) = Inr ()
       \<and> sound (PROJECT_NAME opts) (world (snd (startToolchain p opts (docker e) fl s)))
       \<and> selects_only e (PROJECT_NAME opts) (world (snd (startToolchain p opts (docker e) fl s)))"
proof -
  let ?N = "PROJECT_NAME opts" and ?cs = "world s"
  note rn = run_name_docker [OF n, of p fl]
  note sel = selected_exact [OF own only]
  from snd have one: "at_most_one ?N ?cs" and ids: "ids_ok ?cs" by (simp_all add: sound_def)
  show ?thesis
  proof (rule at_most_one_cases [OF one])
    assume none: "named ?N ?cs = []"
    from run_free [OF snd none n cr only] obtain out cs' where
      r: "docker_run e (run_command p opts fl) ?N ?cs = (Inr out, cs')" "sound ?N cs'"
         "selects_only e ?N cs'" by blast
    with out none show ?thesis
      by (simp add: startToolchain_def promise_defs docker_ls docker_run_cmd rn listing_def sel
            truthy_def)
  next
    fix c assume one: "named ?N ?cs = [c]" and c: "c \<in> set ?cs" "cname c = ?N"
    from ids c have v: "valid_id (cid c)" by (simp add: ids_ok_def)
    let ?cs1 = "filter (\<lambda>d. cid d \<noteq> cid c) ?cs"
    have s1: "sound ?N ?cs1" by (rule sound_filter [OF snd])
    from only have only1: "selects_only e ?N ?cs1" by (simp add: selects_only_def)
    from one have none1: "named ?N ?cs1 = []" by (simp add: named_filter)
    from run_free [OF s1 none1 n cr only1] obtain out cs' where
      r: "docker_run e (run_command p opts fl) ?N ?cs1 = (Inr out, cs')" "sound ?N cs'"
         "selects_only e ?N cs'" by blast
    from v have t: "truthy (cid c @ [newline])" by (simp add: truthy_def)
    from out one r t show ?thesis
      by (simp add: startToolchain_def promise_defs docker_ls docker_run_cmd rn listing_def sel
            docker_rm_id rm_listed [OF c(1) v])
  qed
qed

subsection \<open>What every operation keeps\<close>























lemma sample_facts:
  "\<not> in_docker host_process"
  "PROJECT_NAME (default_options host_process) = ''libdragon''"
  "plain_name ''libdragon''"
  "docker_name ''libdragon''"
  "wf_store sample_store"
  "wf_store store_without"
  by (simp_all add: in_docker_def host_process_def default_options_def or_default_def
        plain_name_def docker_name_def name_chars_def first_chars_def wf_store_def
        sample_store_def store_without_def
        other_container_def stopped_toolchain_def valid_id_def whitespace_def newline_def)

subsection \<open>Starting twice\<close>



text \<open>
  On an engine that does not refuse a taken name, the \<open>run\<close> of the script alone
  makes a second container of the name: there it is the listing and the removal before
  the \<open>run\<close> that keep the name to one container.
\<close>

lemma run_alone_makes_two:
  "sound ''libdragon'' sample_store
   \<and> length (named ''libdragon''
         (snd (docker lax_engine (run_command host_process (default_options host_process) False)
                 sample_store))) = 2
   \<and> length (named ''libdragon''
         (world (snd (startToolchain host_process (default_options host_process)
                        (docker lax_engine) False (fresh sample_store))))) = 1"
proof -
  let ?opts = "default_options host_process"
  have n: "docker_name (PROJECT_NAME ?opts)" by (simp add: sample_facts)
  have c: "creates lax_engine (run_command host_process ?opts False)"
    by (simp add: lax_engine_def sample_engine_def sample_run_def run_command_def
          default_options_def host_process_def or_default_def DOCKER_HUB_NAME_def)
  have s: "sound ''libdragon'' sample_store"
    by (simp add: wf_store_sound sample_facts)
  have two: "length (named ''libdragon''
         (snd (docker lax_engine (run_command host_process ?opts False) sample_store))) = 2"
  proof -
    have r: "docker lax_engine (run_command host_process ?opts False) sample_store
               = docker_run lax_engine (run_command host_process ?opts False) ''libdragon''
                   sample_store"
      by (simp only: docker_run_cmd run_name_docker [OF n] sample_facts(2))
    have rt: "\<not> refuses_taken lax_engine" by (simp add: lax_engine_def sample_engine_def)
    show ?thesis
      unfolding r
      by (simp add: docker_run_def c rt sample_facts(4) named_def sample_store_def
            other_container_def stopped_toolchain_def)
  qed
  have own: "selects_own lax_engine (PROJECT_NAME ?opts)"
    by (simp add: selects_own_def lax_engine_def sample_engine_def exact_match_def name_pattern_def)
  have only: "selects_only lax_engine (PROJECT_NAME ?opts) (world (fresh sample_store))"
    by (simp add: selects_only_def lax_engine_def sample_engine_def exact_match_def
          name_pattern_def)
  have s': "sound (PROJECT_NAME ?opts) (world (fresh sample_store))"
    using s by (simp add: sample_facts fresh_def)
  from start_on_docker [OF sample_facts(1) n s' own only c]
  have "fst (startToolchain host_process ?opts (docker lax_engine) False (fresh sample_store))
          = Inr ()" by simp
  from start_resolved_one [OF sample_facts(1) n s' _ this] own
  have "length (named (PROJECT_NAME ?opts)
         (world (snd (startToolchain host_process ?opts (docker lax_engine) False
                        (fresh sample_store))))) = 1" by blast
  with s two show ?thesis by (simp add: sample_facts)
qed


subsection \<open>Stopping what is not there\<close>




subsection \<open>Make starts the container first\<close>



subsection \<open>Ambiguous dependencies\<close>

lemma uniq_from_set: "set (uniq_from seen xs) = set xs - set seen"
  by (induction xs arbitrary: seen) auto

lemma uniq_from_distinct: "distinct (uniq_from seen xs)"
  by (induction xs arbitrary: seen) (auto simp: uniq_from_set)

lemma uniq_distinct: "distinct (uniq xs)" and uniq_set: "set (uniq xs) = set xs"
  by (simp_all add: uniq_def uniq_from_distinct uniq_from_set)

lemma resolve_dependency_distinct:
  "resolve_dependency sh n s = (Inr d, s') \<Longrightarrow> distinct (paths d)"
  by (auto simp: resolve_dependency_def promise_defs uniq_distinct split: prod.splits sum.splits)

lemma promise_all_Inr:
  "promise_all (m # ms) s = (Inr xs, s') \<Longrightarrow>
     \<exists>a as s1. m s = (Inr a, s1) \<and> promise_all ms s1 = (Inr as, s') \<and> xs = a # as"
  by (auto split: prod.splits sum.splits)

lemma resolved_distinct:
  "promise_all (map (resolve_dependency sh) ns) s = (Inr deps, s') \<Longrightarrow>
     \<forall>d \<in> set deps. distinct (paths d)"
proof (induction ns arbitrary: s deps)
  case Nil then show ?case by simp
next
  case (Cons n ns)
  from Cons.prems obtain a as s1 where
    a: "resolve_dependency sh n s = (Inr a, s1)"
    and as: "promise_all (map (resolve_dependency sh) ns) s1 = (Inr as, s')"
    and deps: "deps = a # as"
    using promise_all_Inr [of "resolve_dependency sh n" "map (resolve_dependency sh) ns" s deps s']
    by auto
  from Cons.IH [OF as] resolve_dependency_distinct [OF a] deps show ?case by simp
qed

lemma resolve_dependencies_distinct:
  assumes "resolve_dependencies p opts sh s = (Inr deps, s')"
  shows "\<forall>d \<in> set deps. distinct (paths d)"
proof -
  from assms obtain pkg s1 where
    "promise_all (map (resolve_dependency sh) (dependency_names pkg)) s1 = (Inr deps, s')"
    by (auto simp: resolve_dependencies_def await_def reject_def
             split: prod.splits sum.splits option.splits)
  then show ?thesis by (rule resolved_distinct)
qed

lemma resolve_dependency_found:
  assumes "npm_contract sh" and "resolve_dependency sh n s = (Inr d, s')"
  shows "paths d \<noteq> []"
proof -
  from assms(2) obtain out w where
    sh: "sh (''npm ls '' @ n @ '' --parseable=true'') (world s) = (Inr out, w)"
    and d: "paths d = uniq (filter truthy (split_where (\<lambda>c. c = newline) out))"
    by (auto simp: resolve_dependency_def promise_defs split: prod.splits sum.splits)
  from assms(1) sh have "filter truthy (split_where (\<lambda>c. c = newline) out) \<noteq> []"
    unfolding npm_contract_def by blast
  then have "set (uniq (filter truthy (split_where (\<lambda>c. c = newline) out))) \<noteq> {}"
    by (simp only: uniq_set set_empty not_False_eq_True)
  with d show ?thesis by auto
qed

lemma resolved_found:
  "npm_contract sh \<Longrightarrow> promise_all (map (resolve_dependency sh) ns) s = (Inr deps, s') \<Longrightarrow>
     \<forall>d \<in> set deps. paths d \<noteq> []"
proof (induction ns arbitrary: s deps)
  case Nil then show ?case by simp
next
  case (Cons n ns)
  from Cons.prems(2) obtain a as s1 where
    a: "resolve_dependency sh n s = (Inr a, s1)"
    and as: "promise_all (map (resolve_dependency sh) ns) s1 = (Inr as, s')"
    and deps: "deps = a # as"
    using promise_all_Inr [of "resolve_dependency sh n" "map (resolve_dependency sh) ns" s deps s']
    by auto
  from Cons.IH [OF Cons.prems(1) as] resolve_dependency_found [OF Cons.prems(1) a] deps
  show ?case by simp
qed

lemma resolve_dependencies_found:
  assumes "npm_contract sh" and "resolve_dependencies p opts sh s = (Inr deps, s')"
  shows "\<forall>d \<in> set deps. paths d \<noteq> []"
proof -
  from assms(2) obtain pkg s1 where
    "promise_all (map (resolve_dependency sh) (dependency_names pkg)) s1 = (Inr deps, s')"
    by (auto simp: resolve_dependencies_def await_def reject_def
             split: prod.splits sum.splits option.splits)
  with assms(1) show ?thesis by (rule resolved_found)
qed

lemma rejected_if_ambiguous:
  "\<exists>d \<in> set deps. 1 < length (paths d) \<Longrightarrow> rejected_at_once deps \<noteq> None"
  by (induction deps) auto

lemma rejected_ambiguous_first:
  "\<forall>x \<in> set pre. paths x \<noteq> [] \<Longrightarrow> 1 < length (paths d) \<Longrightarrow>
     rejected_at_once (pre @ d # post) = Some (Message ambiguous)"
  by (induction pre) auto

lemma rejected_ambiguous_found:
  "\<forall>x \<in> set deps. paths x \<noteq> [] \<Longrightarrow> \<exists>d \<in> set deps. 1 < length (paths d) \<Longrightarrow>
     rejected_at_once deps = Some (Message ambiguous)"
  by (induction deps) auto

lemma rejected_ambiguous_some:
  "rejected_at_once deps = Some (Message ambiguous) \<Longrightarrow> \<exists>d \<in> set deps. 1 < length (paths d)"
  by (induction deps) (auto split: if_splits)

lemma rejected_none_one:
  "rejected_at_once deps = None \<Longrightarrow> \<forall>d \<in> set deps. length (paths d) = 1"
proof (induction deps)
  case Nil then show ?case by simp
next
  case (Cons d deps)
  from Cons.prems have "\<not> 1 < length (paths d)" "paths d \<noteq> []" "rejected_at_once deps = None"
    by (simp_all split: if_splits)
  moreover from this(1,2) have "length (paths d) = 1" by (cases "paths d") simp_all
  ultimately show ?case using Cons.IH by simp
qed

lemma install_dependency_error:
  "fst (install_dependency p opts sh d s) = Inl e \<Longrightarrow> paths d \<noteq> [] \<Longrightarrow> \<exists>code. e = ExecutionError code"
  by (cases "paths d")
     (auto simp: install_dependency_def promise_defs split: if_splits prod.splits sum.splits)

lemma dependency_promise_error:
  "fst (dependency_promise p opts sh d s) = Inl e \<Longrightarrow> length (paths d) = 1 \<Longrightarrow>
     \<exists>code. e = ExecutionError code"
  using install_dependency_error [of p opts sh d s e]
  by (cases "paths d") (simp_all add: dependency_promise_def)

lemma install_all_error:
  "fst (promise_all (map (dependency_promise p opts sh) deps) s) = Inl e \<Longrightarrow>
     \<forall>d \<in> set deps. length (paths d) = 1 \<Longrightarrow> \<exists>code. e = ExecutionError code"
proof (induction deps arbitrary: s)
  case Nil then show ?case by simp
next
  case (Cons d deps)
  obtain r s1 where m: "dependency_promise p opts sh d s = (r, s1)"
    by (cases "dependency_promise p opts sh d s")
  obtain rs s2 where ms: "promise_all (map (dependency_promise p opts sh) deps) s1 = (rs, s2)"
    by (cases "promise_all (map (dependency_promise p opts sh) deps) s1")
  show ?case
  proof (cases r)
    case (Inl e')
    with Cons.prems m ms have "e' = e" by simp
    with Inl m Cons.prems(2) dependency_promise_error [of p opts sh d s e] show ?thesis by simp
  next
    case (Inr a)
    with Cons.prems m ms have "rs = Inl e" by (simp split: sum.splits)
    with ms Cons.IH [of s1] Cons.prems(2) show ?thesis by simp
  qed
qed

text \<open>The order of the keys: array indices first, by value, whatever the listing says.\<close>

lemma integer_keys_first:
  "dependency_names \<lparr> dependencies = [''b'', ''10'', ''libdragon''],
                      devDependencies = [''a'', ''7'', ''b'', ''07''] \<rparr>
     = [''7'', ''10'', ''b'', ''a'', ''07'']"
  by (simp add: dependency_names_def own_keys_def uniq_def array_index_def index_value_def
        digit_value_def digits_def)

lemma npm_sample:
  "\<not> in_docker host_process"
  "package_json host_process = Some \<lparr> dependencies = [''libdragon'', ''a''], devDependencies = [''b''] \<rparr>"
  "dependency_names \<lparr> dependencies = [''libdragon'', ''a''], devDependencies = [''b''] \<rparr> = [''a'', ''b'']"
  by (simp_all add: in_docker_def host_process_def dependency_names_def uniq_def own_keys_def
        array_index_def digits_def)

lemma npm_answers_other:
  "map_of table cmd = None \<Longrightarrow> strip_prefix ''npm ls '' cmd = None \<Longrightarrow>
     runCommand (npm_answers table) cmd s = (Inr [], \<lparr> world = world s, issued = issued s @ [cmd] \<rparr>)"
  by (simp add: runCommand_def npm_answers_def)

lemma npm_answers_listed:
  "map_of table cmd = Some out \<Longrightarrow>
     runCommand (npm_answers table) cmd s = (Inr out, \<lparr> world = world s, issued = issued s @ [cmd] \<rparr>)"
  by (simp add: runCommand_def npm_answers_def)

lemma host_start_npm:
  "startToolchain host_process opts (npm_answers one_and_two) fl s =
     (Inr (), \<lparr> world = world s, issued = issued s @ [ls_command opts, run_command host_process opts fl] \<rparr>)"
proof -
  have 1: "runCommand (npm_answers one_and_two) (ls_command opts) t
             = (Inr [], \<lparr> world = world t, issued = issued t @ [ls_command opts] \<rparr>)" for t
    by (rule npm_answers_other) (simp_all add: one_and_two_def ls_command_def)
  have 2: "runCommand (npm_answers one_and_two) (run_command host_process opts fl) t
             = (Inr [], \<lparr> world = world t,
                          issued = issued t @ [run_command host_process opts fl] \<rparr>)" for t
    by (rule npm_answers_other) (simp_all add: one_and_two_def run_command_def)
  show ?thesis
    by (simp add: startToolchain_def npm_sample await_def resolve_def 1 2 truthy_def)
qed

lemma host_download_npm:
  "fst (download host_process opts (npm_answers one_and_two) s) = Inr ()"
  "world (snd (download host_process opts (npm_answers one_and_two) s)) = world s"
proof -
  have 1: "runCommand (npm_answers one_and_two) (CHR ''d'' # r) t
             = (Inr [], \<lparr> world = world t, issued = issued t @ [CHR ''d'' # r] \<rparr>)" for t r
    by (rule npm_answers_other) (simp_all add: one_and_two_def)
  show "fst (download host_process opts (npm_answers one_and_two) s) = Inr ()"
    and "world (snd (download host_process opts (npm_answers one_and_two) s)) = world s"
    by (simp_all add: download_def npm_sample await_def resolve_def 1)
qed

lemma fst_await: "fst (m s) = Inr a \<Longrightarrow> fst (await m f s) = fst (f a (snd (m s)))"
  by (cases "m s") (simp add: await_def)

lemma fst_resolve_dependencies:
  assumes "fst (download p opts sh s) = Inr ()"
    and "\<And>s. fst (startToolchain p opts sh True s) = Inr ()"
    and "package_json p = Some pkg"
  shows "\<exists>s1. fst (resolve_dependencies p opts sh s)
            = fst (promise_all (map (resolve_dependency sh) (dependency_names pkg)) s1)"
proof -
  let ?s1 = "snd (download p opts sh s)"
  let ?s2 = "snd (startToolchain p opts sh True ?s1)"
  have "fst (resolve_dependencies p opts sh s)
          = fst (promise_all (map (resolve_dependency sh) (dependency_names pkg)) ?s2)"
    unfolding resolve_dependencies_def
    by (simp add: fst_await [where m = "download p opts sh" and s = s, OF assms(1)]
          fst_await [where m = "startToolchain p opts sh True" and s = ?s1, OF assms(2)] assms(3))
  then show ?thesis by blast
qed

lemma npm_lines:
  "uniq (filter truthy (split_where (\<lambda>c. c = newline) two_places))
     = [''/home/user/game/node_modules/b'', ''/home/user/game/node_modules/a/node_modules/b'']"
  "uniq (filter truthy (split_where (\<lambda>c. c = newline) ''/home/user/game/node_modules/a\<newline>''))
     = [''/home/user/game/node_modules/a'']"
  by (simp_all add: two_places_def uniq_def truthy_def newline_def)

lemma npm_tables:
  "map_of one_and_two (''npm ls '' @ ''a'' @ '' --parseable=true'') = Some ''/home/user/game/node_modules/a\<newline>''"
  "map_of one_and_two (''npm ls '' @ ''b'' @ '' --parseable=true'') = Some two_places"
  by (simp_all add: one_and_two_def)

lemma npm_contract_sample: "npm_contract (npm_answers one_and_two)"
  unfolding npm_contract_def
proof (intro allI impI)
  fix dep :: string and w :: unit and out w'
  let ?cmd = "''npm ls '' @ dep @ '' --parseable=true''"
  assume r: "npm_answers one_and_two ?cmd w = (Inr out, w')"
  have p: "strip_prefix ''npm ls '' ?cmd \<noteq> None" by simp
  from r p have m: "map_of one_and_two ?cmd = Some out"
    by (cases "map_of one_and_two ?cmd") (simp_all add: npm_answers_def)
  from m have "(?cmd, out) \<in> set one_and_two" by (rule map_of_SomeD)
  then have "snd (?cmd, out) \<in> snd ` set one_and_two" by (rule imageI)
  moreover have "snd ` set one_and_two = {''/home/user/game/node_modules/a\<newline>'', two_places}"
    by (simp add: one_and_two_def)
  ultimately have o: "out = ''/home/user/game/node_modules/a\<newline>'' \<or> out = two_places"
    by simp
  have 1: "filter truthy (split_where (\<lambda>c. c = newline) ''/home/user/game/node_modules/a\<newline>'') \<noteq> []"
    by (simp add: truthy_def newline_def)
  have 2: "filter truthy (split_where (\<lambda>c. c = newline) two_places) \<noteq> []"
    by (simp add: two_places_def truthy_def newline_def)
  from o 1 2 show "filter truthy (split_where (\<lambda>c. c = newline) out) \<noteq> []"
    by blast
qed

lemma resolve_dependency_npm:
  "map_of table (''npm ls '' @ dep @ '' --parseable=true'') = Some out \<Longrightarrow>
   fst (resolve_dependency (npm_answers table) dep s) =
     Inr \<lparr> name = dep, paths = uniq (filter truthy (split_where (\<lambda>c. c = newline) out)) \<rparr>"
  by (simp add: resolve_dependency_def await_def resolve_def npm_answers_listed)

lemma fst_promise_all2:
  "fst (promise_all [m1, m2] s) =
     (case fst (m1 s) of Inl e \<Rightarrow> Inl e
      | Inr a \<Rightarrow> (case fst (m2 (snd (m1 s))) of Inl e \<Rightarrow> Inl e | Inr b \<Rightarrow> Inr [a, b]))"
proof (cases "m1 s")
  case (Pair r s1)
  then show ?thesis
    by (cases "m2 s1"; cases r) (auto split: sum.splits)
qed

lemma resolved_names:
  "fst (promise_all (map (resolve_dependency (npm_answers one_and_two)) [''a'', ''b'']) s) =
     Inr [\<lparr> name = ''a'', paths = [''/home/user/game/node_modules/a''] \<rparr>,
          \<lparr> name = ''b'', paths = [''/home/user/game/node_modules/b'',
                                   ''/home/user/game/node_modules/a/node_modules/b''] \<rparr>]"
  unfolding list.map fst_promise_all2 resolve_dependency_npm [OF npm_tables(1)]
    resolve_dependency_npm [OF npm_tables(2)]
  by (simp only: npm_lines sum.case)

lemma resolved_samples:
  "fst (resolve_dependencies host_process opts (npm_answers one_and_two) s) =
     Inr [\<lparr> name = ''a'', paths = [''/home/user/game/node_modules/a''] \<rparr>,
          \<lparr> name = ''b'', paths = [''/home/user/game/node_modules/b'',
                                   ''/home/user/game/node_modules/a/node_modules/b''] \<rparr>]"
proof -
  have 1: "fst (startToolchain host_process opts (npm_answers one_and_two) True s) = Inr ()" for s
    by (simp add: host_start_npm)
  from fst_resolve_dependencies [OF host_download_npm(1) 1 npm_sample(2)] obtain s1 where
    "fst (resolve_dependencies host_process opts (npm_answers one_and_two) s)
       = fst (promise_all (map (resolve_dependency (npm_answers one_and_two)) [''a'', ''b'']) s1)"
    unfolding npm_sample(3) by blast
  then show ?thesis
    by (simp only: resolved_names)
qed

text \<open>
  Claim C7. Let the dependencies be resolved, each to its distinct install paths; with
  npm, which fails where it finds nothing, each has at least one. When some dependency
  has more than one path, \<open>install\<close> rejects with the ambiguity message, however the
  others resolved. Whatever the interpreter is, \<open>install\<close> rejects in that case; it
  rejects with the ambiguity message when every dependency listed before an ambiguous
  one has at least one path, and only when some dependency has more than one path. The
  promise made for a dependency with exactly one path is never rejected with the
  ambiguity message.
\<close>

theorem ambiguous_dependency_rejects:
  assumes "resolve_dependencies p opts sh s = (Inr deps, s')"
  shows "(\<forall>d \<in> set deps. distinct (paths d))
       \<and> (npm_contract sh \<longrightarrow> (\<forall>d \<in> set deps. paths d \<noteq> []))
       \<and> (npm_contract sh \<and> (\<exists>d \<in> set deps. 1 < length (paths d)) \<longrightarrow>
            install p opts sh s = (Inl (Message ambiguous), s'))
       \<and> ((\<exists>d \<in> set deps. 1 < length (paths d)) \<longrightarrow>
            (\<exists>e. install p opts sh s = (Inl e, s')))
       \<and> ((\<exists>pre d post. deps = pre @ d # post \<and> (\<forall>x \<in> set pre. paths x \<noteq> [])
              \<and> 1 < length (paths d)) \<longrightarrow>
            install p opts sh s = (Inl (Message ambiguous), s'))
       \<and> (fst (install p opts sh s) = Inl (Message ambiguous) \<longrightarrow>
            (\<exists>d \<in> set deps. 1 < length (paths d)))
       \<and> (\<forall>d t. length (paths d) = 1 \<longrightarrow>
            fst (dependency_promise p opts sh d t) \<noteq> Inl (Message ambiguous))"
proof (intro conjI impI allI)
  show "\<forall>d \<in> set deps. distinct (paths d)"
    using assms by (rule resolve_dependencies_distinct)
  have i: "install p opts sh s = install_dependencies p opts sh deps s'"
    using assms by (simp add: install_def await_def)
  {
    assume "npm_contract sh"
    then show "\<forall>d \<in> set deps. paths d \<noteq> []"
      using assms by (rule resolve_dependencies_found)
  }
  {
    assume h: "npm_contract sh \<and> (\<exists>d \<in> set deps. 1 < length (paths d))"
    then have "\<forall>d \<in> set deps. paths d \<noteq> []"
      using resolve_dependencies_found [OF _ assms] by blast
    with h have "rejected_at_once deps = Some (Message ambiguous)"
      using rejected_ambiguous_found [of deps] by blast
    then show "install p opts sh s = (Inl (Message ambiguous), s')"
      by (simp add: i install_dependencies_def reject_def)
  }
  {
    assume "\<exists>d \<in> set deps. 1 < length (paths d)"
    then obtain e where "rejected_at_once deps = Some e"
      using rejected_if_ambiguous [of deps] by auto
    then show "\<exists>e. install p opts sh s = (Inl e, s')"
      by (simp add: i install_dependencies_def reject_def)
  }
  {
    assume "\<exists>pre d post. deps = pre @ d # post \<and> (\<forall>x \<in> set pre. paths x \<noteq> [])
              \<and> 1 < length (paths d)"
    then have "rejected_at_once deps = Some (Message ambiguous)"
      using rejected_ambiguous_first by blast
    then show "install p opts sh s = (Inl (Message ambiguous), s')"
      by (simp add: i install_dependencies_def reject_def)
  }
  {
    assume a: "fst (install p opts sh s) = Inl (Message ambiguous)"
    show "\<exists>d \<in> set deps. 1 < length (paths d)"
    proof (cases "rejected_at_once deps")
      case (Some e)
      with a have "e = Message ambiguous"
        by (simp add: i install_dependencies_def reject_def)
      with Some show ?thesis using rejected_ambiguous_some [of deps] by simp
    next
      case None
      then have one: "\<forall>d \<in> set deps. length (paths d) = 1" by (rule rejected_none_one)
      from a None have
        "fst (promise_all (map (dependency_promise p opts sh) deps) s') = Inl (Message ambiguous)"
        by (auto simp: i install_dependencies_def await_def resolve_def split: prod.splits sum.splits)
      from install_all_error [OF this one] show ?thesis by simp
    qed
  }
  {
    fix d :: dependency and t :: "'a state"
    assume one: "length (paths d) = 1"
    show "fst (dependency_promise p opts sh d t) \<noteq> Inl (Message ambiguous)"
    proof
      assume "fst (dependency_promise p opts sh d t) = Inl (Message ambiguous)"
      from dependency_promise_error [OF this one] show False by simp
    qed
  }
qed

theorem ambiguous_dependency_rejects_witness:
  "npm_contract (npm_answers one_and_two)
   \<and> fst (resolve_dependencies host_process (default_options host_process) (npm_answers one_and_two)
          (fresh ())) =
     Inr [\<lparr> name = ''a'', paths = [''/home/user/game/node_modules/a''] \<rparr>,
          \<lparr> name = ''b'', paths = [''/home/user/game/node_modules/b'',
                                   ''/home/user/game/node_modules/a/node_modules/b''] \<rparr>]
   \<and> fst (install host_process (default_options host_process) (npm_answers one_and_two)
             (fresh ())) = Inl (Message ambiguous)
   \<and> fst (dependency_promise host_process (default_options host_process) (npm_answers one_and_two)
             \<lparr> name = ''a'', paths = [''/home/user/game/node_modules/a''] \<rparr> (fresh ()))
        \<noteq> Inl (Message ambiguous)"
proof -
  let ?a = "\<lparr> name = ''a'', paths = [''/home/user/game/node_modules/a''] \<rparr>"
  let ?deps = "[?a,
          \<lparr> name = ''b'', paths = [''/home/user/game/node_modules/b'',
                                   ''/home/user/game/node_modules/a/node_modules/b''] \<rparr>]"
  let ?r = "resolve_dependencies host_process (default_options host_process)
              (npm_answers one_and_two) (fresh ())"
  have f: "fst ?r = Inr ?deps" by (rule resolved_samples)
  then have r: "?r = (Inr ?deps, snd ?r)" by (simp add: prod_eq_iff)
  have c: "npm_contract (npm_answers one_and_two)" by (rule npm_contract_sample)
  have amb: "\<exists>d \<in> set ?deps. 1 < length (paths d)" by simp
  have one: "length (paths ?a) = 1" by simp
  from ambiguous_dependency_rejects [OF r] c amb
  have 1: "install host_process (default_options host_process) (npm_answers one_and_two) (fresh ())
             = (Inl (Message ambiguous), snd ?r)" by blast
  from ambiguous_dependency_rejects [OF r] one
  have 2: "fst (dependency_promise host_process (default_options host_process)
                  (npm_answers one_and_two) ?a (fresh ())) \<noteq> Inl (Message ambiguous)"
    by blast
  from c f 1 2 show ?thesis by simp
qed

subsection \<open>The mount path flag\<close>

lemma strip_prefix_append: "strip_prefix t s = Some r \<Longrightarrow> s = t @ r"
  by (induction t s rule: strip_prefix.induct) (auto split: if_splits)

lemma strip_prefix_None: "\<not> occurs t s \<Longrightarrow> strip_prefix t s = None"
  by (cases s; cases t) auto

lemma split_skip_nonempty: "split_skip t k s \<noteq> []"
  by (induction t k s rule: split_skip.induct) (auto split: list.splits)

lemma split_skip_skip: "length xs = k \<Longrightarrow> split_skip t k (xs @ r) = split_skip t 0 r"
  by (induction xs arbitrary: k) auto

lemma split_str_prefix:
  assumes "strip_prefix t s = Some r" and "t \<noteq> []"
  shows "split_str t s = [] # split_str t r"
proof -
  from assms(2) obtain c t' where t: "t = c # t'" by (cases t) auto
  from strip_prefix_append [OF assms(1)] have s: "s = c # t' @ r" by (simp add: t)
  have "strip_prefix t (c # t' @ r) \<noteq> None"
    using assms(1) s by simp
  then have "split_skip t 0 (c # t' @ r) = [] # split_skip t (length t - 1) (t' @ r)"
    using assms(2) by simp
  also have "split_skip t (length t - 1) (t' @ r) = split_skip t 0 r"
    by (rule split_skip_skip) (simp add: t)
  finally show ?thesis by (simp add: split_str_def s)
qed

lemma occurs_tail: "occurs t cs \<Longrightarrow> occurs t (c # cs)"
  by simp

lemma split_str_whole:
  assumes "t \<noteq> []"
  shows "\<not> occurs t s \<Longrightarrow> split_str t s = [s]"
  unfolding split_str_def
proof (induction s)
  case Nil show ?case by simp
next
  case (Cons c cs)
  from Cons.prems have "strip_prefix t (c # cs) = None" by (rule strip_prefix_None)
  moreover from Cons.prems have "\<not> occurs t cs" using occurs_tail by blast
  then have "split_skip t 0 cs = [cs]" by (rule Cons.IH)
  ultimately show ?case by simp
qed

lemma mount_flag_pieces:
  "\<exists>piece more. split_str ''--mount-path='' (''--mount-path='' @ P) = [] # piece # more"
proof -
  have "strip_prefix ''--mount-path='' (''--mount-path='' @ P) = Some P" by simp
  then have "split_str ''--mount-path='' (''--mount-path='' @ P) = [] # split_str ''--mount-path='' P"
    by (rule split_str_prefix) simp
  moreover obtain piece more where "split_str ''--mount-path='' P = piece # more"
    using split_skip_nonempty [of "''--mount-path=''" 0 P]
    by (cases "split_str ''--mount-path='' P") (auto simp: split_str_def)
  ultimately show ?thesis by simp
qed

lemma mount_flag_piece:
  assumes "\<not> occurs ''--mount-path='' P"
  shows "split_str ''--mount-path='' (''--mount-path='' @ P) = [[], P]"
proof -
  have "strip_prefix ''--mount-path='' (''--mount-path='' @ P) = Some P" by simp
  then have "split_str ''--mount-path='' (''--mount-path='' @ P) = [] # split_str ''--mount-path='' P"
    by (rule split_str_prefix) simp
  with split_str_whole [OF _ assms] show ?thesis by simp
qed

text \<open>
  Claim C8, as the code has it. For every \<open>P\<close> that does not itself contain the text of
  the flag, the argument \<open>--mount-path=P\<close> at an index from 1 on sets \<open>MOUNT_PATH\<close> to
  \<open>path.join\<close> of the working directory and \<open>P\<close>. On a POSIX host that is the
  normalised path of \<open>P\<close> appended to the working directory: a relative \<open>P\<close> is resolved
  against the working directory, and an absolute \<open>P\<close> is placed below it as well.
\<close>

theorem mount_path_joined:
  assumes "1 \<le> index" and "\<not> occurs ''--mount-path='' P"
  shows "MOUNT_PATH (opts_now (argv_handler p argv (''--mount-path='' @ P) index d))
           = join (path p) [cwd p, P]
       \<and> (path p = posix \<and> cwd p \<noteq> [] \<and> P \<noteq> [] \<longrightarrow>
            MOUNT_PATH (opts_now (argv_handler p argv (''--mount-path='' @ P) index d))
              = posix_normalize (cwd p @ ''/'' @ P))"
proof -
  have "strip_prefix ''--mount-path='' (''--mount-path='' @ P) \<noteq> None" by simp
  with assms(1) mount_flag_piece [OF assms(2)]
  have m: "MOUNT_PATH (opts_now (argv_handler p argv (''--mount-path='' @ P) index d))
           = join (path p) [cwd p, P]"
    by (simp add: argv_handler_def del: strip_prefix.simps)
  moreover have "cwd p \<noteq> [] \<and> P \<noteq> [] \<longrightarrow> join posix [cwd p, P] = posix_normalize (cwd p @ ''/'' @ P)"
    by (simp add: posix_def posix_join_def)
  ultimately show ?thesis by auto
qed

theorem mount_path_joined_witness:
  "(1::nat) \<le> 2 \<and> \<not> occurs ''--mount-path='' ''assets''
   \<and> MOUNT_PATH (opts_now (argv_handler host_process
         [''node'', ''/x/index.js'', ''--mount-path=assets''] (''--mount-path='' @ ''assets'') 2
         \<lparr> opts_now = default_options host_process, invoked = [], printed = [], ended = None \<rparr>))
       = ''/home/user/game/assets''"
proof -
  have h: "(1::nat) \<le> 2" "\<not> occurs ''--mount-path='' ''assets''" by simp_all
  let ?m = "MOUNT_PATH (opts_now (argv_handler host_process
         [''node'', ''/x/index.js'', ''--mount-path=assets''] (''--mount-path='' @ ''assets'') 2
         \<lparr> opts_now = default_options host_process, invoked = [], printed = [], ended = None \<rparr>))"
  have p: "path host_process = posix \<and> cwd host_process \<noteq> [] \<and> ''assets'' \<noteq> []"
    by (simp add: host_process_def)
  have n: "posix_normalize (cwd host_process @ ''/'' @ ''assets'') = ''/home/user/game/assets''"
    by (simp add: host_process_def posix_normalize_def is_slash_def)
  from mount_path_joined [OF h, of host_process] p
  have "?m = posix_normalize (cwd host_process @ ''/'' @ ''assets'')" by blast
  then have "?m = ''/home/user/game/assets''" by (simp only: n)
  with h show ?thesis by blast
qed

text \<open>
  An absolute path after the flag: the mount path is that path below the working
  directory, not the path itself.
\<close>

theorem absolute_mount_path_is_nested:
  "MOUNT_PATH (opts_now (dispatcher host_process [''node'', ''/x/index.js'', ''--mount-path=/mnt'']))
     = ''/home/user/game/mnt''
   \<and> MOUNT_PATH (opts_now (dispatcher host_process [''node'', ''/x/index.js'', ''--mount-path=/mnt'']))
     \<noteq> ''/mnt''"
proof -
  have s: "split_str ''--mount-path='' ''--mount-path=/mnt'' = [[], ''/mnt'']"
    using mount_flag_piece [of "''/mnt''"] by simp
  have j: "join (path host_process) [cwd host_process, ''/mnt''] = ''/home/user/game/mnt''"
    by (simp add: host_process_def posix_def posix_join_def posix_normalize_def is_slash_def)
  have "dispatcher host_process [''node'', ''/x/index.js'', ''--mount-path=/mnt'']
     = \<lparr> opts_now = (default_options host_process) \<lparr> MOUNT_PATH := ''/home/user/game/mnt'' \<rparr>,
         invoked = [], printed = [], ended = None \<rparr>"
    using s j
    by (simp add: dispatcher_def argv_handler_def Let_def availableActions_def
          inherited_methods_def)
  then show ?thesis by simp
qed

subsection \<open>The loop over the arguments\<close>

lemma flag_is_no_action:
  assumes "strip_prefix ''--mount-path='' val \<noteq> None"
  shows "map_of availableActions val = None" and "\<not> halts val"
proof -
  from assms obtain r where "strip_prefix ''--mount-path='' val = Some r" by auto
  then have v: "val = ''--mount-path='' @ r" by (rule strip_prefix_append)
  show "map_of availableActions val = None"
    by (simp add: v availableActions_def)
  show "\<not> halts val"
    by (simp add: v halts_def inherited_methods_def)
qed

lemma inherited_facts:
  "\<forall>v \<in> set inherited_methods.
     strip_prefix ''--mount-path='' v = None \<and> v \<noteq> ''--byte-swap'' \<and> v \<noteq> ''--help''
     \<and> map_of availableActions v = None"
  by (simp add: inherited_methods_def availableActions_def)

lemma halting_is_no_flag:
  assumes "halts val"
  shows "strip_prefix ''--mount-path='' val = None" and "val \<noteq> ''--byte-swap''"
    and "val \<noteq> ''--help'' \<longrightarrow> map_of availableActions val = None \<and> val \<in> set inherited_methods"
proof -
  from assms consider "val = ''--help''" | "val \<in> set inherited_methods"
    unfolding halts_def by blast
  then show "strip_prefix ''--mount-path='' val = None"
    using inherited_facts by cases auto
  from assms consider "val = ''--help''" | "val \<in> set inherited_methods"
    unfolding halts_def by blast
  then show "val \<noteq> ''--byte-swap''"
    using inherited_facts by cases auto
  from assms show "val \<noteq> ''--help'' \<longrightarrow> map_of availableActions val = None \<and> val \<in> set inherited_methods"
    unfolding halts_def using inherited_facts by blast
qed

lemma handler_halts:
  assumes "1 \<le> index" and "halts val"
  shows "ended (argv_handler p argv val index d) \<noteq> None"
    and "invoked (argv_handler p argv val index d) = invoked d"
  using assms(1) halting_is_no_flag [OF assms(2)]
  by (auto simp: argv_handler_def)

lemma handler_flag:
  assumes "1 \<le> index" and "strip_prefix ''--mount-path='' val = Some r"
  shows "\<exists>piece. argv_handler p argv val index d =
           d \<lparr> opts_now := (opts_now d) \<lparr> MOUNT_PATH := join (path p) [cwd p, piece] \<rparr> \<rparr>"
proof -
  from assms(2) have v: "val = ''--mount-path='' @ r" by (rule strip_prefix_append)
  from mount_flag_pieces [of r] obtain piece more where
    "split_str ''--mount-path='' val = [] # piece # more" unfolding v by blast
  with assms have "argv_handler p argv val index d =
           d \<lparr> opts_now := (opts_now d) \<lparr> MOUNT_PATH := join (path p) [cwd p, piece] \<rparr> \<rparr>"
    by (simp add: argv_handler_def)
  then show ?thesis by blast
qed

lemma handler_other:
  assumes "1 \<le> index" and "strip_prefix ''--mount-path='' val = None"
    and "val \<noteq> ''--byte-swap''" and "\<not> halts val"
  shows "argv_handler p argv val index d =
           (case map_of availableActions val of
              Some a \<Rightarrow> d \<lparr> invoked := invoked d @ [(a, join_with '' '' (drop (index + 1) argv))] \<rparr>
            | None \<Rightarrow> d)"
proof -
  from assms(4) have "val \<noteq> ''--help''" "val \<notin> set inherited_methods"
    by (simp_all add: halts_def)
  with assms(1-3) show ?thesis
    by (simp add: argv_handler_def split: option.splits)
qed

lemma handler_goes_on:
  assumes "1 \<le> index" and "\<not> halts val" and "ended d = None" and "argv ! index = val"
  shows "ended (argv_handler p argv val index d) = None
       \<and> invoked (argv_handler p argv val index d) = invoked d @ call_at argv index"
proof (cases "strip_prefix ''--mount-path='' val")
  case (Some r)
  from handler_flag [OF assms(1) Some, of p argv d] obtain piece where
    h: "argv_handler p argv val index d =
          d \<lparr> opts_now := (opts_now d) \<lparr> MOUNT_PATH := join (path p) [cwd p, piece] \<rparr> \<rparr>"
    by blast
  from Some flag_is_no_action(1) [of val] have "call_at argv index = []"
    by (simp add: call_at_def assms(4))
  with h assms(3) show ?thesis by simp
next
  case None
  show ?thesis
  proof (cases "val = ''--byte-swap''")
    case True
    have "map_of availableActions ''--byte-swap'' = None"
      by (simp add: availableActions_def)
    then have "call_at argv index = []"
      by (simp add: call_at_def assms(4) True)
    moreover from assms(1) True have "argv_handler p argv val index d =
        d \<lparr> opts_now := (opts_now d) \<lparr> BYTE_SWAP := True \<rparr> \<rparr>"
      by (simp add: argv_handler_def)
    ultimately show ?thesis using assms(3) by simp
  next
    case False
    from handler_other [OF assms(1) None False assms(2), of p argv d] assms(3,4) show ?thesis
      by (cases "map_of availableActions val") (simp_all add: call_at_def)
  qed
qed

lemma forEach_from:
  assumes "ended d = None" and "1 \<le> k" and "vals = drop k argv"
  shows "invoked (forEach (argv_handler p argv) k vals d) =
           invoked d @ concat (map (call_at argv)
                                [k ..< k + length (takeWhile (\<lambda>v. \<not> halts v) vals)])"
  using assms
proof (induction vals arbitrary: k d)
  case Nil then show ?case by simp
next
  case (Cons v vs)
  from Cons.prems(3) have k: "k < length argv" by (metis drop_all list.distinct(1) not_le)
  from Cons.prems(3) have v: "argv ! k = v" by (metis nth_via_drop)
  from Cons.prems(3) have vs: "vs = drop (Suc k) argv" by (metis drop_Suc list.sel(3) tl_drop)
  show ?case
  proof (cases "halts v")
    case True
    with handler_halts [OF Cons.prems(2) True, of p argv d] show ?thesis
      by (auto simp: Let_def)
  next
    case False
    from handler_goes_on [OF Cons.prems(2) False Cons.prems(1) v, of p]
    have go: "ended (argv_handler p argv v k d) = None"
      "invoked (argv_handler p argv v k d) = invoked d @ call_at argv k" by simp_all
    have "1 \<le> Suc k" by simp
    note ih = Cons.IH [OF go(1) this vs]
    have u: "[k ..< k + length (takeWhile (\<lambda>v. \<not> halts v) (v # vs))]
               = k # [Suc k ..< Suc k + length (takeWhile (\<lambda>v. \<not> halts v) vs)]"
      using False by (simp add: upt_conv_Cons del: upt_Suc)
    have "forEach (argv_handler p argv) k (v # vs) d
            = forEach (argv_handler p argv) (Suc k) vs (argv_handler p argv v k d)"
      using go(1) by (simp add: Let_def)
    with ih go(2) show ?thesis
      unfolding u by simp
  qed
qed

text \<open>
  Claim C10, as the code has it. The dispatcher goes through the arguments from index 1
  on (the script's own path, at index 1, included), in order, up to the first argument
  that is \<open>--help\<close> or the name of an inherited method, where the loop ends. For each
  argument before that point that is exactly the name of an action it calls the action,
  with all the arguments after that one joined by blanks; it makes no other call. Two
  verbs on a command line therefore both trigger, unless the loop ended before them.
\<close>

theorem dispatcher_calls:
  "invoked (dispatcher p argv) =
     concat (map (call_at argv)
               [1 ..< 1 + length (takeWhile (\<lambda>v. \<not> halts v) (drop 1 argv))])"
proof (cases argv)
  case Nil then show ?thesis by (simp add: dispatcher_def)
next
  case (Cons v0 rest)
  let ?d0 = "\<lparr> opts_now = default_options p, invoked = [], printed = [], ended = None \<rparr>"
  have 0: "argv_handler p argv v0 0 ?d0 = ?d0" by (simp add: argv_handler_def)
  have "rest = drop 1 argv" by (simp add: Cons)
  from forEach_from [OF _ _ this, of ?d0 p] 0 show ?thesis
    by (simp add: dispatcher_def Cons Let_def)
qed

theorem dispatcher_calls_witness:
  "invoked (dispatcher host_process [''node'', ''/x/index.js'', ''start'', ''--byte-swap'', ''stop''])
     = [(Start, ''--byte-swap stop''), (Stop, [])]"
proof -
  let ?argv = "[''node'', ''/x/index.js'', ''start'', ''--byte-swap'', ''stop'']"
  have t: "takeWhile (\<lambda>v. \<not> halts v) (drop 1 ?argv) = drop 1 ?argv"
    by (simp add: halts_def inherited_methods_def)
  have u: "[1 ..< 1 + length (drop 1 ?argv)] = [1, 2, 3, 4]"
    by (simp add: upt_rec)
  have c: "call_at ?argv (Suc 0) = []" "call_at ?argv 2 = [(Start, ''--byte-swap stop'')]"
    "call_at ?argv 3 = []" "call_at ?argv 4 = [(Stop, [])]"
    by (simp_all add: call_at_def availableActions_def)
  from dispatcher_calls [of host_process ?argv] show ?thesis
    unfolding t u by (simp add: c)
qed

text \<open>
  A verb after \<open>--help\<close>: the argument at index 3 is the name of an action, and no call
  is made for it, because the process exits at index 2.
\<close>

theorem help_ends_the_loop:
  "map_of availableActions ([''node'', ''/x/index.js'', ''--help'', ''start''] ! 3) = Some Start
   \<and> invoked (dispatcher host_process [''node'', ''/x/index.js'', ''--help'', ''start'']) = []
   \<and> ended (dispatcher host_process [''node'', ''/x/index.js'', ''--help'', ''start'']) = Some (Exit 0)"
  by (simp add: dispatcher_def argv_handler_def Let_def availableActions_def inherited_methods_def)

subsection \<open>The path of a dependency inside the container\<close>

lemma lower_facts:
  "map toLowerCase ''C:'' = ''c:''" "map toLowerCase ''game'' = ''game''"
  "map toLowerCase ''node_modules'' = ''node_modules''"
  "map toLowerCase ''@scope'' = ''@scope''" "map toLowerCase ''pkg'' = ''pkg''"
  by (simp_all add: toLowerCase_def)

lemma win_segments:
  "win32_resolve c (win_path [''C:'', ''game'']) = [''C:'', ''game'']"
  "win32_resolve c scoped_package = [''C:'', ''game'', ''node_modules'', ''@scope'', ''pkg'']"
  by (simp_all add: win32_resolve_def win_path_def scoped_package_def drive_qualified_def
        is_win_sep_def backslash_def)

lemma win_relative:
  "relative win32 (cwd win_process) (MOUNT_PATH (default_options win_process)) scoped_package
     = win_path [''node_modules'', ''@scope'', ''pkg'']"
proof -
  have m: "MOUNT_PATH (default_options win_process) = win_path [''C:'', ''game'']"
    by (simp add: default_options_def win_process_def Let_def)
  have ne: "win_path [''C:'', ''game''] \<noteq> scoped_package"
    by (simp add: win_path_def scoped_package_def)
  show ?thesis
    unfolding m
    by (simp add: win32_def win32_relative_def ne win_segments lower_facts Let_def)
       (simp add: win_path_def)
qed

lemma posix_path_translated:
  "containerPath host_process (default_options host_process)
     ''/home/user/game/node_modules/@scope/pkg'' = ''/libdragon/node_modules/@scope/pkg/''"
proof -
  have p: "path host_process = posix" "sep posix = CHR ''/''" "cwd host_process = ''/home/user/game''"
    "PROJECT_NAME (default_options host_process) = ''libdragon''"
    "MOUNT_PATH (default_options host_process) = ''/home/user/game''"
    by (simp_all add: host_process_def posix_def default_options_def or_default_def Let_def)
  have "relative posix ''/home/user/game'' ''/home/user/game'' ''/home/user/game/node_modules/@scope/pkg''
          = ''node_modules/@scope/pkg''"
    by (simp add: posix_def posix_relative_def posix_resolve_def is_slash_def Let_def)
  then have "relativePath host_process (default_options host_process)
               ''/home/user/game/node_modules/@scope/pkg'' = ''node_modules/@scope/pkg''"
    by (simp add: relativePath_def p)
  then show ?thesis
    by (simp add: containerPath_def p posix_join_def posix_normalize_def is_slash_def)
qed

text \<open>
  Claim C1, on a Windows host. The dependency is two directories below
  \<open>node_modules\<close>, so its path relative to the mount path has two separators. Only the
  first becomes a slash: the container path, and the path of the Makefile, keep a
  backslash.
\<close>

theorem windows_path_keeps_a_backslash:
  "sep (path win_process) = backslash
   \<and> relative (path win_process) (cwd win_process) (MOUNT_PATH (default_options win_process))
         scoped_package = win_path [''node_modules'', ''@scope'', ''pkg'']
   \<and> containerPath win_process (default_options win_process) scoped_package
         = ''/libdragon/node_modules/@scope'' @ [backslash] @ ''pkg/''
   \<and> makePath win_process (default_options win_process) scoped_package
         = ''/libdragon/node_modules/@scope'' @ [backslash] @ ''pkg/Makefile''"
proof -
  have p: "path win_process = win32" "sep win32 = backslash" "sep posix = CHR ''/''"
    "PROJECT_NAME (default_options win_process) = ''libdragon''"
    by (simp_all add: win_process_def win32_def posix_def default_options_def or_default_def)
  have r: "relativePath win_process (default_options win_process) scoped_package
             = ''node_modules/@scope'' @ [backslash] @ ''pkg''"
    using win_relative
    by (simp add: relativePath_def p win_path_def backslash_def)
  have c: "containerPath win_process (default_options win_process) scoped_package
         = ''/libdragon/node_modules/@scope'' @ [backslash] @ ''pkg/''"
    by (simp add: containerPath_def r p posix_join_def posix_normalize_def is_slash_def
          backslash_def)
  have "makePath win_process (default_options win_process) scoped_package
         = ''/libdragon/node_modules/@scope'' @ [backslash] @ ''pkg/Makefile''"
    by (simp add: makePath_def c posix_join_def posix_normalize_def is_slash_def backslash_def)
  with c win_relative p show ?thesis by simp
qed

end
